theory Spec2Isabelle
  imports Main
begin

section \<open>Python strings\<close>

text \<open>
  A Python \<open>str\<close> is a sequence of Unicode code points; it is modelled as a list of
  natural numbers, one per code point. ASCII literals of the source are written through
  \<open>ascii\<close>.
\<close>

type_synonym pystr = "nat list"

definition ascii :: "string \<Rightarrow> pystr" where
  "ascii s = map of_char s"

text \<open>The line boundaries of \<open>str.splitlines\<close>: LF, VT, FF, CR, FS, GS, RS, NEL, LS, PS
  (CR LF counts as one boundary).\<close>

definition is_linebreak :: "nat \<Rightarrow> bool" where
  "is_linebreak c \<longleftrightarrow> c \<in> {10, 11, 12, 13, 28, 29, 30, 133, 8232, 8233}"

text \<open>The characters removed by \<open>str.strip()\<close> (those for which \<open>str.isspace\<close> holds).\<close>

definition is_space :: "nat \<Rightarrow> bool" where
  "is_space c \<longleftrightarrow>
     (9 \<le> c \<and> c \<le> 13) \<or> (28 \<le> c \<and> c \<le> 32) \<or> c = 133 \<or> c = 160 \<or> c = 5760 \<or>
     (8192 \<le> c \<and> c \<le> 8202) \<or> c = 8232 \<or> c = 8233 \<or> c = 8239 \<or> c = 8287 \<or> c = 12288"

definition strip :: "pystr \<Rightarrow> pystr" where
  "strip s = rev (dropWhile is_space (rev (dropWhile is_space s)))"

text \<open>\<open>text.splitlines()\<close>: \<open>cur\<close> is the line being collected. A final line without a
  boundary is kept when it is not empty; no empty line follows a final boundary.\<close>

fun splitlines_from :: "pystr \<Rightarrow> pystr \<Rightarrow> pystr list" where
  "splitlines_from cur [] = (if cur = [] then [] else [cur])"
| "splitlines_from cur (c # cs) =
     (if c = 13 \<and> cs \<noteq> [] \<and> hd cs = 10 then cur # splitlines_from [] (tl cs)
      else if is_linebreak c then cur # splitlines_from [] cs
      else splitlines_from (cur @ [c]) cs)"

definition splitlines :: "pystr \<Rightarrow> pystr list" where
  "splitlines text = splitlines_from [] text"

text \<open>\<open>raw.find(ch)\<close> and \<open>raw.rfind(ch)\<close> for a one-character needle; \<open>None\<close> is
  Python's \<open>-1\<close>.\<close>

fun find_char :: "nat \<Rightarrow> pystr \<Rightarrow> nat option" where
  "find_char ch [] = None"
| "find_char ch (c # cs) =
     (if c = ch then Some 0 else map_option Suc (find_char ch cs))"

definition rfind_char :: "nat \<Rightarrow> pystr \<Rightarrow> nat option" where
  "rfind_char ch s =
     (case find_char ch (rev s) of None \<Rightarrow> None | Some i \<Rightarrow> Some (length s - 1 - i))"

text \<open>\<open>raw[start : stop]\<close> for non-negative bounds.\<close>

definition slice :: "pystr \<Rightarrow> nat \<Rightarrow> nat \<Rightarrow> pystr" where
  "slice s start stop = take (stop - start) (drop start s)"

text \<open>Decimal rendering of a non-negative integer, as \<open>str(n)\<close> and the f-string do.\<close>

fun str_nat :: "nat \<Rightarrow> pystr" where
  "str_nat n = (if n < 10 then [48 + n] else str_nat (n div 10) @ [48 + n mod 10])"

declare str_nat.simps [simp del]

definition str_int :: "int \<Rightarrow> pystr" where
  "str_int i = (if i < 0 then 45 # str_nat (nat (- i)) else str_nat (nat i))"

section \<open>The block parser\<close>

text \<open>
  \<open>parse_srt_blocks\<close>: the loop over the lines carries \<open>current\<close> and \<open>blocks\<close>; a line
  is blank when \<open>line.strip() == ""\<close>.
\<close>

fun parse_loop :: "pystr list \<Rightarrow> pystr list \<Rightarrow> pystr list list \<Rightarrow> pystr list list" where
  "parse_loop [] current blocks = (if current \<noteq> [] then blocks @ [current] else blocks)"
| "parse_loop (line # lines) current blocks =
     (if strip line = []
      then (if current \<noteq> [] then parse_loop lines [] (blocks @ [current])
            else parse_loop lines current blocks)
      else parse_loop lines (current @ [line]) blocks)"

definition parse_srt_blocks :: "pystr \<Rightarrow> pystr list list" where
  "parse_srt_blocks text = parse_loop (splitlines text) [] []"

section \<open>JSON values and the decoder\<close>

text \<open>
  The values \<open>json.loads\<close> produces: \<open>None\<close>, \<open>bool\<close>, \<open>int\<close>, \<open>float\<close>, \<open>str\<close>, \<open>list\<close>
  and \<open>dict\<close>. A float keeps the text it was read from (floating point is not modelled);
  a dict is the list of its members in reading order, a later member overriding an earlier
  one with the same key. The limits of the interpreter (recursion depth, the digit limit of
  \<open>int\<close>) are not modelled.
\<close>

datatype json =
    JNull
  | JBool bool
  | JInt int
  | JFloat pystr
  | JString pystr
  | JArray "json list"
  | JObject "(pystr \<times> json) list"

definition is_ws :: "nat \<Rightarrow> bool" where
  "is_ws c \<longleftrightarrow> c = 32 \<or> c = 9 \<or> c = 10 \<or> c = 13"

definition skip_ws :: "pystr \<Rightarrow> pystr" where
  "skip_ws s = dropWhile is_ws s"

definition is_digit :: "nat \<Rightarrow> bool" where
  "is_digit c \<longleftrightarrow> 48 \<le> c \<and> c \<le> 57"

definition hex_val :: "nat \<Rightarrow> nat option" where
  "hex_val c =
     (if 48 \<le> c \<and> c \<le> 57 then Some (c - 48)
      else if 97 \<le> c \<and> c \<le> 102 then Some (c - 87)
      else if 65 \<le> c \<and> c \<le> 70 then Some (c - 55)
      else None)"

text \<open>The four hexadecimal digits of a \<open>\uXXXX\<close> escape.\<close>

definition decode_uXXXX :: "pystr \<Rightarrow> (nat \<times> pystr) option" where
  "decode_uXXXX s =
     (case s of
        a # b # c # d # r \<Rightarrow>
          (case (hex_val a, hex_val b, hex_val c, hex_val d) of
             (Some x, Some y, Some z, Some w) \<Rightarrow> Some (((x * 16 + y) * 16 + z) * 16 + w, r)
           | _ \<Rightarrow> None)
      | _ \<Rightarrow> None)"

definition backslash :: "nat \<Rightarrow> nat option" where
  "backslash e =
     (if e = 34 then Some 34 else if e = 92 then Some 92 else if e = 47 then Some 47
      else if e = 98 then Some 8 else if e = 102 then Some 12 else if e = 110 then Some 10
      else if e = 114 then Some 13 else if e = 116 then Some 9 else None)"

text \<open>The body of a string after its opening quote (strict mode: a control character
  ends the parse with an error). The first argument bounds the number of steps; each
  step consumes a character, so the length of the input is enough.\<close>

fun scanstring :: "nat \<Rightarrow> pystr \<Rightarrow> pystr \<Rightarrow> (pystr \<times> pystr) option" where
  "scanstring 0 s acc = None"
| "scanstring (Suc n) [] acc = None"
| "scanstring (Suc n) (c # cs) acc =
     (if c = 34 then Some (acc, cs)
      else if c = 92 then
        (case cs of
           [] \<Rightarrow> None
         | e # r \<Rightarrow>
             if e = 117 then
               (case decode_uXXXX r of
                  None \<Rightarrow> None
                | Some (uni, r1) \<Rightarrow>
                    if 55296 \<le> uni \<and> uni \<le> 56319 \<and> take 2 r1 = [92, 117] then
                      (case decode_uXXXX (drop 2 r1) of
                         None \<Rightarrow> None
                       | Some (uni2, r2) \<Rightarrow>
                           if 56320 \<le> uni2 \<and> uni2 \<le> 57343
                           then scanstring n r2
                                  (acc @ [65536 + ((uni - 55296) * 1024 + (uni2 - 56320))])
                           else scanstring n r1 (acc @ [uni]))
                    else scanstring n r1 (acc @ [uni]))
             else
               (case backslash e of
                  None \<Rightarrow> None
                | Some ch \<Rightarrow> scanstring n r (acc @ [ch])))
      else if c < 32 then None
      else scanstring n cs (acc @ [c]))"

definition int_of_digits :: "pystr \<Rightarrow> int" where
  "int_of_digits ds = foldl (\<lambda>a d. 10 * a + int (d - 48)) 0 ds"

text \<open>The number pattern \<open>(-?(?:0|[1-9]\d*))(\.\d+)?([eE][-+]?\d+)?\<close>: an integer when no
  fraction and no exponent matched, a float otherwise.\<close>

definition match_number :: "pystr \<Rightarrow> (json \<times> pystr) option" where
  "match_number s =
     (let (neg, s1) = (case s of [] \<Rightarrow> (False, s) | c # r \<Rightarrow> if c = 45 then (True, r) else (False, s))
      in case s1 of
           [] \<Rightarrow> None
         | d # r \<Rightarrow>
             if \<not> is_digit d then None
             else
               let (ipart, r1) =
                     (if d = 48 then ([d], r)
                      else (d # takeWhile is_digit r, dropWhile is_digit r));
                   (frac, r2) =
                     (case r1 of
                        [] \<Rightarrow> ([], r1)
                      | p # f \<Rightarrow>
                          if p = 46 \<and> f \<noteq> [] \<and> is_digit (hd f)
                          then (p # takeWhile is_digit f, dropWhile is_digit f)
                          else ([], r1));
                   (ex, r3) =
                     (case r2 of
                        [] \<Rightarrow> ([], r2)
                      | e # x \<Rightarrow>
                          if e = 101 \<or> e = 69 then
                            (let (sg, x1) =
                                   (case x of
                                      [] \<Rightarrow> ([], x)
                                    | c # y \<Rightarrow> if c = 43 \<or> c = 45 then ([c], y) else ([], x))
                             in if x1 \<noteq> [] \<and> is_digit (hd x1)
                                then (e # sg @ takeWhile is_digit x1, dropWhile is_digit x1)
                                else ([], r2))
                          else ([], r2))
               in if frac = [] \<and> ex = []
                  then Some (JInt (if neg then - int_of_digits ipart else int_of_digits ipart), r3)
                  else Some (JFloat ((if neg then [45] else []) @ ipart @ frac @ ex), r3))"

text \<open>
  \<open>scan_once\<close> reads one value and returns it with the rest of the input; \<open>parse_elems\<close>
  and \<open>parse_members\<close> are the loops of \<open>JSONArray\<close> and \<open>JSONObject\<close>. The first
  argument bounds the nesting of calls.
\<close>

fun scan_once :: "nat \<Rightarrow> pystr \<Rightarrow> (json \<times> pystr) option"
  and parse_elems :: "nat \<Rightarrow> pystr \<Rightarrow> json list \<Rightarrow> (json \<times> pystr) option"
  and parse_members :: "nat \<Rightarrow> pystr \<Rightarrow> (pystr \<times> json) list \<Rightarrow> (json \<times> pystr) option"
where
  "scan_once 0 s = None"
| "scan_once (Suc n) s =
     (case s of
        [] \<Rightarrow> None
      | c # cs \<Rightarrow>
          if c = 34 then
            (case scanstring (length cs) cs [] of
               None \<Rightarrow> None
             | Some (str, r) \<Rightarrow> Some (JString str, r))
          else if c = 123 then
            (let s1 = skip_ws cs
             in if s1 \<noteq> [] \<and> hd s1 = 125 then Some (JObject [], tl s1)
                else parse_members n s1 [])
          else if c = 91 then
            (let s1 = skip_ws cs
             in if s1 \<noteq> [] \<and> hd s1 = 93 then Some (JArray [], tl s1)
                else parse_elems n s1 [])
          else if take 4 s = ascii ''null'' then Some (JNull, drop 4 s)
          else if take 4 s = ascii ''true'' then Some (JBool True, drop 4 s)
          else if take 5 s = ascii ''false'' then Some (JBool False, drop 5 s)
          else
            (case match_number s of
               Some res \<Rightarrow> Some res
             | None \<Rightarrow>
                 if take 3 s = ascii ''NaN'' then Some (JFloat (ascii ''NaN''), drop 3 s)
                 else if take 8 s = ascii ''Infinity''
                 then Some (JFloat (ascii ''Infinity''), drop 8 s)
                 else if take 9 s = ascii ''-Infinity''
                 then Some (JFloat (ascii ''-Infinity''), drop 9 s)
                 else None))"
| "parse_elems 0 s acc = None"
| "parse_elems (Suc n) s acc =
     (case scan_once n s of
        None \<Rightarrow> None
      | Some (v, r) \<Rightarrow>
          (case skip_ws r of
             [] \<Rightarrow> None
           | c # r2 \<Rightarrow>
               if c = 93 then Some (JArray (acc @ [v]), r2)
               else if c = 44 then parse_elems n (skip_ws r2) (acc @ [v])
               else None))"
| "parse_members 0 s acc = None"
| "parse_members (Suc n) s acc =
     (case s of
        [] \<Rightarrow> None
      | q # cs \<Rightarrow>
          if q \<noteq> 34 then None
          else
            (case scanstring (length cs) cs [] of
               None \<Rightarrow> None
             | Some (key, r) \<Rightarrow>
                 (case skip_ws r of
                    [] \<Rightarrow> None
                  | colon # r2 \<Rightarrow>
                      if colon \<noteq> 58 then None
                      else
                        (case scan_once n (skip_ws r2) of
                           None \<Rightarrow> None
                         | Some (v, r3) \<Rightarrow>
                             (case skip_ws r3 of
                                [] \<Rightarrow> None
                              | c # r4 \<Rightarrow>
                                  if c = 125 then Some (JObject (acc @ [(key, v)]), r4)
                                  else if c = 44
                                  then parse_members n (skip_ws r4) (acc @ [(key, v)])
                                  else None)))))"

text \<open>\<open>json.loads\<close> on a \<open>str\<close>: \<open>None\<close> is \<open>JSONDecodeError\<close>. A leading byte order
  mark is refused; white space may surround the value; nothing else may follow it.\<close>

definition json_loads :: "pystr \<Rightarrow> json option" where
  "json_loads s =
     (if s \<noteq> [] \<and> hd s = 65279 then None
      else
        (case scan_once (2 * length s + 2) (skip_ws s) of
           None \<Rightarrow> None
         | Some (v, r) \<Rightarrow> if skip_ws r = [] then Some v else None))"

section \<open>The oracle\<close>

datatype error =
    OracleFailure
  | JSONDecodeError
  | ValueError pystr
  | AttributeError
  | TypeError
  | IndexError
  | UnicodeEncodeError
  | FileNotFoundError

text \<open>
  The external process behind \<open>call_codex\<close>: from the prompts of the earlier calls and
  the prompt of this call, it either fails (\<open>None\<close>: \<open>subprocess.run\<close> with \<open>check=True\<close>
  raises, or the last message cannot be read) or leaves a last message. The state threaded
  through the program is the list of prompts sent so far.
\<close>

type_synonym codex_proc = "pystr list \<Rightarrow> pystr \<Rightarrow> pystr option"

definition call_codex :: "codex_proc \<Rightarrow> pystr \<Rightarrow> pystr list \<Rightarrow> (error + pystr) \<times> pystr list" where
  "call_codex codex prompt log =
     (case codex log prompt of
        None \<Rightarrow> (Inl OracleFailure, log @ [prompt])
      | Some out \<Rightarrow> (Inr (strip out), log @ [prompt]))"

section \<open>Prompts\<close>

definition hex_digit :: "nat \<Rightarrow> nat" where
  "hex_digit d = (if d < 10 then 48 + d else 87 + d)"

text \<open>\<open>json.dumps(..., ensure_ascii=False)\<close> on a string: only the quote, the backslash
  and the control characters are escaped.\<close>

definition escape_char :: "nat \<Rightarrow> pystr" where
  "escape_char c =
     (if c = 34 then [92, 34] else if c = 92 then [92, 92]
      else if c = 10 then [92, 110] else if c = 13 then [92, 114]
      else if c = 9 then [92, 116] else if c = 8 then [92, 98]
      else if c = 12 then [92, 102]
      else if c < 32 then [92, 117, 48, 48, hex_digit (c div 16), hex_digit (c mod 16)]
      else [c])"

definition encode_basestring :: "pystr \<Rightarrow> pystr" where
  "encode_basestring s = [34] @ concat (map escape_char s) @ [34]"

fun join :: "pystr \<Rightarrow> pystr list \<Rightarrow> pystr" where
  "join sep [] = []"
| "join sep [x] = x"
| "join sep (x # y # ys) = x @ sep @ join sep (y # ys)"

text \<open>\<open>json.dumps(indexed_lines, ensure_ascii=False)\<close> for the list of
  \<open>{"id": index, "text": line}\<close>.\<close>

definition dumps_entry :: "nat \<times> pystr \<Rightarrow> pystr" where
  "dumps_entry e =
     ascii ''{\"id\": '' @ str_nat (fst e) @ ascii '', \"text\": '' @ encode_basestring (snd e)
       @ ascii ''}''"

definition payload :: "pystr list \<Rightarrow> pystr" where
  "payload lines = ascii ''['' @ join (ascii '', '') (map dumps_entry (enumerate 0 lines)) @ ascii '']''"

definition structured_prompt :: "pystr list \<Rightarrow> pystr" where
  "structured_prompt lines =
     ascii ''Translate the following subtitle text entries from English to Russian.'' @ [10]
     @ ascii ''Return ONLY a JSON array of objects with fields \"id\" and \"text\".'' @ [10]
     @ ascii ''Keep exactly '' @ str_nat (length lines)
     @ ascii '' entries, same order, and the same ids.'' @ [10]
     @ ascii ''If a line is empty, return an empty string in \"text\".'' @ [10]
     @ ascii ''Entries:'' @ [10] @ payload lines @ [10]"

definition fallback_prompt :: "pystr \<Rightarrow> pystr" where
  "fallback_prompt line =
     ascii ''Translate the following subtitle text line from English to Russian.'' @ [10]
     @ ascii ''Return ONLY the translated line with no extra text.'' @ [10]
     @ ascii ''Line:'' @ [10] @ line @ [10]"

section \<open>The batch translator\<close>

text \<open>What one pass through the body of the \<open>for attempt in range(3)\<close> loop does: return
  the texts, raise, or go on (\<open>continue\<close>, or falling off the end of the body).\<close>

datatype step = Return "json list" | Raise error | Continue

definition is_dict :: "json \<Rightarrow> bool" where
  "is_dict v = (case v of JObject kvs \<Rightarrow> True | _ \<Rightarrow> False)"

text \<open>\<open>item.get("text", "")\<close>: a value without a \<open>get\<close> method raises \<open>AttributeError\<close>.\<close>

definition item_get_text :: "json \<Rightarrow> error + json" where
  "item_get_text item =
     (case item of
        JObject kvs \<Rightarrow>
          (case map_of (rev kvs) (ascii ''text'') of None \<Rightarrow> Inr (JString []) | Some v \<Rightarrow> Inr v)
      | _ \<Rightarrow> Inl AttributeError)"

fun get_texts :: "json list \<Rightarrow> error + json list" where
  "get_texts [] = Inr []"
| "get_texts (item # items) =
     (case item_get_text item of
        Inl e \<Rightarrow> Inl e
      | Inr t \<Rightarrow> (case get_texts items of Inl e \<Rightarrow> Inl e | Inr ts \<Rightarrow> Inr (t # ts)))"

text \<open>\<open>str(item)\<close>. Float formatting and the \<open>repr\<close> of lists and dicts are not modelled:
  \<open>str_other\<close> stands for the builtin on those values.\<close>

definition py_str :: "(json \<Rightarrow> pystr) \<Rightarrow> json \<Rightarrow> pystr" where
  "py_str str_other item =
     (case item of
        JString s \<Rightarrow> s
      | JInt i \<Rightarrow> str_int i
      | JBool b \<Rightarrow> (if b then ascii ''True'' else ascii ''False'')
      | JNull \<Rightarrow> ascii ''None''
      | _ \<Rightarrow> str_other item)"

definition coerce_texts :: "(json \<Rightarrow> pystr) \<Rightarrow> json list \<Rightarrow> json list" where
  "coerce_texts str_other items =
     map (\<lambda>item. JString (if item = JNull then [] else py_str str_other item)) items"

text \<open>Lines 91 to 97: the check of the decoded value against the input.\<close>

definition validate :: "(json \<Rightarrow> pystr) \<Rightarrow> pystr list \<Rightarrow> json \<Rightarrow> step" where
  "validate str_other lines translated =
     (case translated of
        JArray items \<Rightarrow>
          if length items = length lines then
            (if items \<noteq> [] \<and> is_dict (hd items) then
               (case get_texts items of
                  Inl e \<Rightarrow> Raise e
                | Inr texts \<Rightarrow> if length texts = length lines then Return texts else Continue)
             else
               (let texts = coerce_texts str_other items
                in if length texts = length lines then Return texts else Continue))
          else Continue
      | _ \<Rightarrow> Continue)"

text \<open>Lines 80 to 97. The second \<open>json.loads\<close>, on the bracket substring, runs inside the
  \<open>except\<close> clause: its \<open>JSONDecodeError\<close> is not caught.\<close>

definition attempt_body :: "(json \<Rightarrow> pystr) \<Rightarrow> pystr list \<Rightarrow> nat \<Rightarrow> pystr \<Rightarrow> step" where
  "attempt_body str_other lines attempt raw =
     (case json_loads raw of
        Some translated \<Rightarrow> validate str_other lines translated
      | None \<Rightarrow>
          (case (find_char 91 raw, rfind_char 93 raw) of
             (Some start, Some end) \<Rightarrow>
               (case json_loads (slice raw start (end + 1)) of
                  None \<Rightarrow> Raise JSONDecodeError
                | Some translated \<Rightarrow> validate str_other lines translated)
           | _ \<Rightarrow>
               if attempt = 2
               then Raise (ValueError (ascii ''Model response is not JSON array: '' @ raw))
               else Continue))"

function structured_loop ::
  "codex_proc \<Rightarrow> (json \<Rightarrow> pystr) \<Rightarrow> pystr list \<Rightarrow> nat \<Rightarrow> pystr list \<Rightarrow> step \<times> pystr list" where
  "structured_loop codex str_other lines attempt log =
     (if 3 \<le> attempt then (Continue, log)
      else
        (case call_codex codex (structured_prompt lines) log of
           (Inl e, log1) \<Rightarrow> (Raise e, log1)
         | (Inr raw, log1) \<Rightarrow>
             (case attempt_body str_other lines attempt raw of
                Continue \<Rightarrow>
                  if attempt = 2 then (Continue, log1)
                  else structured_loop codex str_other lines (attempt + 1) log1
              | Return texts \<Rightarrow> (Return texts, log1)
              | Raise e \<Rightarrow> (Raise e, log1))))"
  by pat_completeness auto
termination
  by (relation "measure (\<lambda>(codex, str_other, lines, attempt, log). 3 - attempt)") auto

declare structured_loop.simps [simp del]

text \<open>Lines 102 to 112: the per-line loop, \<open>acc\<close> being \<open>translated_lines\<close>.\<close>

fun fallback_loop ::
  "codex_proc \<Rightarrow> pystr list \<Rightarrow> pystr list \<Rightarrow> pystr list \<Rightarrow> (error + pystr list) \<times> pystr list" where
  "fallback_loop codex [] acc log = (Inr acc, log)"
| "fallback_loop codex (line # lines) acc log =
     (if line = [] then fallback_loop codex lines (acc @ [[]]) log
      else
        (case call_codex codex (fallback_prompt line) log of
           (Inl e, log1) \<Rightarrow> (Inl e, log1)
         | (Inr out, log1) \<Rightarrow> fallback_loop codex lines (acc @ [strip out]) log1))"

text \<open>The result is a list of Python values: strings from the coercion and from the
  fallback, whatever the \<open>text\<close> members hold from the object branch.\<close>

definition translate_lines ::
  "codex_proc \<Rightarrow> (json \<Rightarrow> pystr) \<Rightarrow> pystr list \<Rightarrow> pystr list \<Rightarrow> (error + json list) \<times> pystr list" where
  "translate_lines codex str_other lines log =
     (if lines = [] then (Inr [], log)
      else
        (case structured_loop codex str_other lines 0 log of
           (Return texts, log1) \<Rightarrow> (Inr texts, log1)
         | (Raise e, log1) \<Rightarrow> (Inl e, log1)
         | (Continue, log1) \<Rightarrow>
             (case fallback_loop codex lines [] log1 of
                (Inl e, log2) \<Rightarrow> (Inl e, log2)
              | (Inr translated_lines, log2) \<Rightarrow>
                  if length translated_lines \<noteq> length lines
                  then (Inl (ValueError (ascii ''Translated output has unexpected length'')), log2)
                  else (Inr (map JString translated_lines), log2))))"

section \<open>Reassembly and the file\<close>

definition BATCH_SIZE :: nat where
  "BATCH_SIZE = 50"

text \<open>The translator as \<open>translate_file\<close> sees it: from the lines and the state it gives
  the translated values or an exception, and the new state.\<close>

type_synonym translator = "pystr list \<Rightarrow> pystr list \<Rightarrow> (error + json list) \<times> pystr list"

text \<open>
  \<open>out_file.write(s)\<close> on a file opened with \<open>encoding="utf-8"\<close>: the text is encoded at the
  call, and a lone surrogate (U+D800 to U+DFFF, which a \<open>\uXXXX\<close> escape of a response can
  produce) cannot be encoded: the call raises \<open>UnicodeEncodeError\<close> and writes nothing. The
  translation of a line feed into the platform's line separator is not modelled.
\<close>

definition is_surrogate :: "nat \<Rightarrow> bool" where
  "is_surrogate c \<longleftrightarrow> 55296 \<le> c \<and> c \<le> 57343"

definition encodable :: "pystr \<Rightarrow> bool" where
  "encodable s \<longleftrightarrow> (\<forall>c\<in>set s. \<not> is_surrogate c)"

definition file_write :: "pystr \<Rightarrow> pystr \<Rightarrow> error + pystr" where
  "file_write out s = (if encodable s then Inr (out @ s) else Inl UnicodeEncodeError)"

text \<open>Lines 141 to 143: \<open>count\<close> writes of \<open>translated_lines[index] + "\n"\<close>. An index out
  of range raises \<open>IndexError\<close>, a value that is not a string \<open>TypeError\<close>, a string that
  cannot be encoded \<open>UnicodeEncodeError\<close>; what was written before stays written.\<close>

fun write_lines :: "json list \<Rightarrow> nat \<Rightarrow> nat \<Rightarrow> pystr \<Rightarrow> error option \<times> nat \<times> pystr" where
  "write_lines translated_lines index 0 out = (None, index, out)"
| "write_lines translated_lines index (Suc k) out =
     (if length translated_lines \<le> index then (Some IndexError, index, out)
      else
        (case translated_lines ! index of
           JString s \<Rightarrow>
             (case file_write out (s @ [10]) of
                Inl e \<Rightarrow> (Some e, index, out)
              | Inr out1 \<Rightarrow> write_lines translated_lines (index + 1) k out1)
         | _ \<Rightarrow> (Some TypeError, index, out)))"

text \<open>Lines 136 to 144: the loop over \<open>zip(batch, line_counts)\<close>.\<close>

fun write_blocks ::
  "(pystr list \<times> nat) list \<Rightarrow> json list \<Rightarrow> nat \<Rightarrow> pystr \<Rightarrow> error option \<times> pystr" where
  "write_blocks [] translated_lines index out = (None, out)"
| "write_blocks ((block, count) # rest) translated_lines index out =
     (case block of
        [] \<Rightarrow> (Some IndexError, out)
      | number_line # more \<Rightarrow>
          (let time_line = (if 1 < length block then block ! 1 else [])
           in case file_write out (number_line @ [10]) of
                Inl e \<Rightarrow> (Some e, out)
              | Inr out1 \<Rightarrow>
                  (case file_write out1 (time_line @ [10]) of
                     Inl e \<Rightarrow> (Some e, out1)
                   | Inr out2 \<Rightarrow>
                       (case write_lines translated_lines index count out2 of
                          (Some e, index', out3) \<Rightarrow> (Some e, out3)
                        | (None, index', out3) \<Rightarrow>
                            (case file_write out3 [10] of
                               Inl e \<Rightarrow> (Some e, out3)
                             | Inr out4 \<Rightarrow> write_blocks rest translated_lines index' out4)))))"

definition text_lines_of :: "pystr list list \<Rightarrow> pystr list" where
  "text_lines_of batch = concat (map (drop 2) batch)"

definition line_counts_of :: "pystr list list \<Rightarrow> nat list" where
  "line_counts_of batch = map (\<lambda>block. length (drop 2 block)) batch"

text \<open>Lines 126 to 144: one batch.\<close>

definition process_batch ::
  "translator \<Rightarrow> pystr list list \<Rightarrow> pystr \<Rightarrow> pystr list \<Rightarrow> error option \<times> pystr \<times> pystr list" where
  "process_batch tr batch out log =
     (case tr (text_lines_of batch) log of
        (Inl e, log1) \<Rightarrow> (Some e, out, log1)
      | (Inr translated_lines, log1) \<Rightarrow>
          (case write_blocks (zip batch (line_counts_of batch)) translated_lines 0 out of
             (err, out1) \<Rightarrow> (err, out1, log1)))"

function batches_loop ::
  "translator \<Rightarrow> pystr list list \<Rightarrow> nat \<Rightarrow> pystr \<Rightarrow> pystr list
     \<Rightarrow> error option \<times> pystr \<times> pystr list" where
  "batches_loop tr blocks start out log =
     (if length blocks \<le> start then (None, out, log)
      else
        (case process_batch tr (take BATCH_SIZE (drop start blocks)) out log of
           (Some e, out1, log1) \<Rightarrow> (Some e, out1, log1)
         | (None, out1, log1) \<Rightarrow> batches_loop tr blocks (start + BATCH_SIZE) out1 log1))"
  by pat_completeness auto
termination
  by (relation "measure (\<lambda>(tr, blocks, start, out, log). length blocks - start)")
     (auto simp: BATCH_SIZE_def)

declare batches_loop.simps [simp del]

datatype path = Path (parent: pystr) (name: pystr)

type_synonym filesystem = "path \<rightharpoonup> pystr"

text \<open>\<open>translate_file\<close> with the translator as a parameter. The input is read first; the
  output file exists from the moment it is opened, and holds what was written when an
  exception leaves the \<open>with\<close> block. The file system maps a path to the text of the file;
  the translation of CR LF and CR into LF that \<open>read_text\<close> applies is not modelled apart,
  since \<open>splitlines\<close> treats CR, CR LF and LF alike and gives the same lines with or
  without it.\<close>

definition translate_file_with ::
  "translator \<Rightarrow> filesystem \<Rightarrow> pystr list \<Rightarrow> path \<Rightarrow> path
     \<Rightarrow> error option \<times> filesystem \<times> pystr list" where
  "translate_file_with tr fs log p out_path =
     (case fs p of
        None \<Rightarrow> (Some FileNotFoundError, fs, log)
      | Some text \<Rightarrow>
          (case batches_loop tr (parse_srt_blocks text) 0 [] log of
             (err, out, log1) \<Rightarrow> (err, fs(out_path \<mapsto> out), log1)))"

definition translate_file ::
  "codex_proc \<Rightarrow> (json \<Rightarrow> pystr) \<Rightarrow> filesystem \<Rightarrow> pystr list \<Rightarrow> path \<Rightarrow> path
     \<Rightarrow> error option \<times> filesystem \<times> pystr list" where
  "translate_file codex str_other = translate_file_with (translate_lines codex str_other)"

section \<open>The run over the discovered files\<close>

record run_state =
  found :: nat
  translated :: nat
  skipped :: nat
  errors :: "(path \<times> error) list"
  files :: filesystem
  calls :: "pystr list"

definition endswith :: "pystr \<Rightarrow> pystr \<Rightarrow> bool" where
  "endswith s suffix \<longleftrightarrow>
     length suffix \<le> length s \<and> drop (length s - length suffix) s = suffix"

definition out_path_of :: "path \<Rightarrow> path" where
  "out_path_of p = Path (parent p) (take (length (name p) - 4) (name p) @ ascii ''.ru.srt'')"

definition is_translation :: "path \<Rightarrow> bool" where
  "is_translation p \<longleftrightarrow> endswith (name p) (ascii ''.ru.srt'') \<or> endswith (name p) (ascii ''_ru.srt'')"

text \<open>Lines 156 to 169: the body of the loop over \<open>srt_files\<close>.\<close>

definition process_file :: "codex_proc \<Rightarrow> (json \<Rightarrow> pystr) \<Rightarrow> path \<Rightarrow> run_state \<Rightarrow> run_state" where
  "process_file codex str_other p st =
     (if is_translation p then st
      else
        (let st1 = st\<lparr>found := found st + 1\<rparr>;
             out_path = out_path_of p
         in if out_path \<in> dom (files st1) then st1\<lparr>skipped := skipped st1 + 1\<rparr>
            else
              (case translate_file codex str_other (files st1) (calls st1) p out_path of
                 (None, fs', log') \<Rightarrow>
                   st1\<lparr>translated := translated st1 + 1, files := fs', calls := log'\<rparr>
               | (Some exc, fs', log') \<Rightarrow>
                   st1\<lparr>errors := errors st1 @ [(p, exc)],
                       files := (if out_path \<in> dom fs' then fs'(out_path := None) else fs'),
                       calls := log'\<rparr>)))"

fun main_loop :: "codex_proc \<Rightarrow> (json \<Rightarrow> pystr) \<Rightarrow> path list \<Rightarrow> run_state \<Rightarrow> run_state" where
  "main_loop codex str_other [] st = st"
| "main_loop codex str_other (p # ps) st =
     main_loop codex str_other ps (process_file codex str_other p st)"

definition initial_state :: "filesystem \<Rightarrow> run_state" where
  "initial_state fs =
     \<lparr>found = 0, translated = 0, skipped = 0, errors = [], files = fs, calls = []\<rparr>"

text \<open>\<open>main\<close>: \<open>srt_files\<close> is the sorted result of the search, made before the loop; the
  report is the final state, the exit status the returned integer.\<close>

definition main :: "codex_proc \<Rightarrow> (json \<Rightarrow> pystr) \<Rightarrow> path list \<Rightarrow> filesystem \<Rightarrow> int \<times> run_state" where
  "main codex str_other srt_files fs =
     (let st = main_loop codex str_other srt_files (initial_state fs)
      in (if errors st = [] then 0 else 1, st))"

section \<open>Notions of the specification\<close>

text \<open>A file errors in a state when the loop body reaches \<open>translate_file\<close> for it and
  \<open>translate_file\<close> raises; some file of a run errors when one does in the state the run has
  reached at its turn.\<close>

definition file_errors :: "codex_proc \<Rightarrow> (json \<Rightarrow> pystr) \<Rightarrow> path \<Rightarrow> run_state \<Rightarrow> bool" where
  "file_errors codex str_other p st \<longleftrightarrow>
     \<not> is_translation p \<and> out_path_of p \<notin> dom (files st) \<and>
     fst (translate_file codex str_other (files st) (calls st) p (out_path_of p)) \<noteq> None"

fun any_errored :: "codex_proc \<Rightarrow> (json \<Rightarrow> pystr) \<Rightarrow> path list \<Rightarrow> run_state \<Rightarrow> bool" where
  "any_errored codex str_other [] st = False"
| "any_errored codex str_other (p # ps) st =
     (file_errors codex str_other p st \<or>
      any_errored codex str_other ps (process_file codex str_other p st))"

text \<open>A well-formed block has an index line, a time line and at least one text line; its
  lines are not blank and hold no line boundary. The text of a file made of blocks: the
  lines of a block joined by a line feed, the blocks separated by one empty line.\<close>

definition well_formed_block :: "pystr list \<Rightarrow> bool" where
  "well_formed_block block \<longleftrightarrow>
     3 \<le> length block \<and> (\<forall>l\<in>set block. strip l \<noteq> [] \<and> (\<forall>c\<in>set l. \<not> is_linebreak c))"

definition srt_text :: "pystr list list \<Rightarrow> pystr" where
  "srt_text blocks = join [10, 10] (map (join [10]) blocks)"

text \<open>The lines of an output block: the index line, the time line (the empty string when
  the block has fewer than 2 lines) and the translated lines. Its text: each of them followed
  by a line feed, then the blank separator.\<close>

definition block_lines :: "pystr list \<Rightarrow> pystr list \<Rightarrow> pystr list" where
  "block_lines block ts = hd block # (if 1 < length block then block ! 1 else []) # ts"

definition block_text :: "pystr list \<Rightarrow> pystr list \<Rightarrow> pystr" where
  "block_text block ts = concat (map (\<lambda>l. l @ [10]) (block_lines block ts)) @ [10]"

text \<open>The prompts \<open>ext\<close>, sent one after the other from the state \<open>log\<close>, were all
  answered: no call among them failed.\<close>

fun answered :: "codex_proc \<Rightarrow> pystr list \<Rightarrow> pystr list \<Rightarrow> bool" where
  "answered codex log [] = True"
| "answered codex log (p # ext) = (codex log p \<noteq> None \<and> answered codex (log @ [p]) ext)"

text \<open>What the calls between two states of the call log were: when \<open>failed\<close> holds, all
  of them but the last were answered and the last one failed; otherwise all were answered.\<close>

definition run_calls :: "codex_proc \<Rightarrow> pystr list \<Rightarrow> pystr list \<Rightarrow> bool \<Rightarrow> bool" where
  "run_calls codex log log' failed \<longleftrightarrow>
     take (length log) log' = log \<and>
     (let ext = drop (length log) log'
      in if failed
         then ext \<noteq> [] \<and> answered codex log (butlast ext) \<and>
              codex (log @ butlast ext) (last ext) = None
         else answered codex log ext)"

text \<open>The translated lines \<open>ts\<close> fit a block when the block is not empty, there are as many
  of them as the block has text lines, and every line to write can be encoded.\<close>

definition fits :: "pystr list \<Rightarrow> pystr list \<Rightarrow> bool" where
  "fits block ts \<longleftrightarrow>
     block \<noteq> [] \<and> length ts = length (drop 2 block) \<and>
     (\<forall>l\<in>set (block_lines block ts). encodable l)"

section \<open>Mock oracles and sample inputs\<close>

text \<open>Deterministic oracles for the concrete runs below: one whose process always fails,
  and four that always leave the same last message.\<close>

definition failing_codex :: codex_proc where
  "failing_codex log prompt = None"

definition prose_codex :: codex_proc where
  "prose_codex log prompt = Some (ascii ''oops'')"

definition object_codex :: codex_proc where
  "object_codex log prompt = Some (ascii ''{}'')"

definition greeting_codex :: codex_proc where
  "greeting_codex log prompt = Some (ascii ''[{\"id\":0,\"text\":\"X\"}]'')"


text \<open>\<open>Here you go:\<close>, a line break, \<open>[{"id":0,"text":"Privet"}]\<close> with the word in Cyrillic
  (code points 1055, 1088, 1080, 1074, 1077, 1090), a line break, \<open>Thanks!\<close>.\<close>

definition privet :: pystr where
  "privet = [1055, 1088, 1080, 1074, 1077, 1090]"

definition wrapped_response :: pystr where
  "wrapped_response =
     ascii ''Here you go:'' @ [10] @ ascii ''[{\"id\":0,\"text\":\"'' @ privet @ ascii ''\"}]'' @ [10]
       @ ascii ''Thanks!''"

definition wrapped_codex :: codex_proc where
  "wrapped_codex log prompt = Some wrapped_response"

text \<open>An oracle that answers \<open>{}\<close> three times and fails from its fourth call on, and one
  that always answers \<open>[{"id":0,"text":"a\nb"}]\<close>, the escape standing for a line feed
  inside the translated text.\<close>

definition late_failing_codex :: codex_proc where
  "late_failing_codex log prompt = (if length log < 3 then Some (ascii ''{}'') else None)"

definition multiline_response :: pystr where
  "multiline_response = ascii ''[{\"id\":0,\"text\":\"a'' @ [92, 110] @ ascii ''b\"}]''"

definition multiline_codex :: codex_proc where
  "multiline_codex log prompt = Some multiline_response"

text \<open>A stand-in for \<open>str\<close> on floats, lists and dicts in the concrete runs.\<close>

definition no_str_other :: "json \<Rightarrow> pystr" where
  "no_str_other v = []"

text \<open>The identity translation: every line comes back as it is, with no oracle call.\<close>

definition identity_translator :: translator where
  "identity_translator lines log = (Inr (map JString lines), log)"

text \<open>Sample inputs for the concrete runs: a file of one block, and two blocks.\<close>

definition sample_path :: path where
  "sample_path = Path [] (ascii ''a.srt'')"

definition sample_block :: "pystr list" where
  "sample_block = [ascii ''1'', ascii ''t'', ascii ''Hi'']"

definition sample_text :: pystr where
  "sample_text = ascii ''1'' @ [10] @ ascii ''t'' @ [10] @ ascii ''Hi'' @ [10]"

definition sample_fs :: filesystem where
  "sample_fs = [sample_path \<mapsto> sample_text]"

definition sample_blocks :: "pystr list list" where
  "sample_blocks = [sample_block, [ascii ''2'', ascii ''u'', ascii ''Yo'']]"

text \<open>The two blocks separated by a line that holds one space.\<close>

definition spaced_text :: pystr where
  "spaced_text =
     ascii ''1'' @ [10] @ ascii ''t'' @ [10] @ ascii ''Hi'' @ [10] @ ascii '' '' @ [10]
       @ ascii ''2'' @ [10] @ ascii ''u'' @ [10] @ ascii ''Yo'' @ [10]"

section \<open>Properties of the batch translator\<close>

lemma call_codex_None: "codex log prompt = None \<Longrightarrow> call_codex codex prompt log = (Inl OracleFailure, log @ [prompt])"
  by (simp add: call_codex_def)

lemma call_codex_Some: "codex log prompt = Some out \<Longrightarrow> call_codex codex prompt log = (Inr (strip out), log @ [prompt])"
  by (simp add: call_codex_def)

lemma validate_Return_length: "validate str_other lines v = Return texts \<Longrightarrow> length texts = length lines"
  by (auto simp: validate_def Let_def split: json.splits if_splits sum.splits)

lemma attempt_body_Return_length:
  "attempt_body str_other lines attempt raw = Return texts \<Longrightarrow> length texts = length lines"
  by (auto simp: attempt_body_def split: option.splits if_splits dest: validate_Return_length)

lemma structured_loop_unfold:
  "attempt < 3 \<Longrightarrow>
   structured_loop codex str_other lines attempt log =
     (case codex log (structured_prompt lines) of
        None \<Rightarrow> (Raise OracleFailure, log @ [structured_prompt lines])
      | Some out \<Rightarrow>
          (case attempt_body str_other lines attempt (strip out) of
             Continue \<Rightarrow>
               if attempt = 2 then (Continue, log @ [structured_prompt lines])
               else structured_loop codex str_other lines (attempt + 1) (log @ [structured_prompt lines])
           | Return texts \<Rightarrow> (Return texts, log @ [structured_prompt lines])
           | Raise e \<Rightarrow> (Raise e, log @ [structured_prompt lines])))"
  by (subst structured_loop.simps) (simp add: call_codex_def split: option.splits)

lemma structured_loop_done:
  "3 \<le> attempt \<Longrightarrow> structured_loop codex str_other lines attempt log = (Continue, log)"
  by (subst structured_loop.simps) simp

lemma structured_loop_Return_length:
  "structured_loop codex str_other lines attempt log = (Return texts, log') \<Longrightarrow> length texts = length lines"
proof (induction codex str_other lines attempt log rule: structured_loop.induct)
  case (1 codex str_other lines attempt log)
  show ?case
  proof (cases "3 \<le> attempt")
    case True
    with "1.prems" show ?thesis by (simp add: structured_loop_done)
  next
    case False
    then have lt: "attempt < 3" by simp
    note eq = "1.prems" [unfolded structured_loop_unfold [OF lt]]
    show ?thesis
    proof (cases "codex log (structured_prompt lines)")
      case None
      with eq show ?thesis by simp
    next
      case (Some out)
      show ?thesis
      proof (cases "attempt_body str_other lines attempt (strip out)")
        case (Return ts)
        with Some eq have "ts = texts" by simp
        with Return show ?thesis by (auto dest: attempt_body_Return_length)
      next
        case (Raise e)
        with Some eq show ?thesis by simp
      next
        case Continue
        show ?thesis
        proof (cases "attempt = 2")
          case True
          with Some Continue eq show ?thesis by simp
        next
          case ne: False
          from Some Continue ne eq
          have "structured_loop codex str_other lines (attempt + 1) (log @ [structured_prompt lines]) = (Return texts, log')"
            by simp
          with "1.IH" [OF False _ _ Continue ne] Some show ?thesis
            by (simp add: call_codex_Some)
        qed
      qed
    qed
  qed
qed

lemma fallback_loop_spec:
  "fallback_loop codex lines acc log = (Inr res, log') \<Longrightarrow>
     (\<exists>ys. res = acc @ ys \<and> length ys = length lines \<and>
        (\<forall>i<length lines. lines ! i = [] \<longrightarrow> ys ! i = [])) \<and>
     log' = log @ map fallback_prompt (filter (\<lambda>l. l \<noteq> []) lines)"
proof (induction lines arbitrary: acc log)
  case Nil
  then show ?case by simp
next
  case (Cons line lines)
  have step: "\<exists>x log1. fallback_loop codex lines (acc @ [x]) log1 = (Inr res, log') \<and>
      (line = [] \<longrightarrow> x = [] \<and> log1 = log) \<and> (line \<noteq> [] \<longrightarrow> log1 = log @ [fallback_prompt line])"
  proof (cases "line = []")
    case True
    with Cons.prems show ?thesis by auto
  next
    case False
    show ?thesis
    proof (cases "codex log (fallback_prompt line)")
      case None
      with False Cons.prems show ?thesis by (simp add: call_codex_None)
    next
      case (Some out)
      with False Cons.prems
      have "fallback_loop codex lines (acc @ [strip (strip out)]) (log @ [fallback_prompt line]) = (Inr res, log')"
        by (simp add: call_codex_Some)
      with False show ?thesis by blast
    qed
  qed
  then obtain x log1 where r: "fallback_loop codex lines (acc @ [x]) log1 = (Inr res, log')"
    and e: "line = [] \<longrightarrow> x = [] \<and> log1 = log"
    and ne: "line \<noteq> [] \<longrightarrow> log1 = log @ [fallback_prompt line]" by blast
  from Cons.IH [OF r] obtain ys where ys: "res = (acc @ [x]) @ ys" "length ys = length lines"
    "\<forall>i<length lines. lines ! i = [] \<longrightarrow> ys ! i = []"
    and lg: "log' = log1 @ map fallback_prompt (filter (\<lambda>l. l \<noteq> []) lines)" by blast
  have "\<forall>i<length (line # lines). (line # lines) ! i = [] \<longrightarrow> (x # ys) ! i = []"
  proof (intro allI impI)
    fix i assume "i < length (line # lines)" "(line # lines) ! i = []"
    then show "(x # ys) ! i = []" using ys(3) e by (cases i) auto
  qed
  moreover have "res = acc @ (x # ys)" using ys(1) by simp
  moreover have "length (x # ys) = length (line # lines)" using ys(2) by simp
  moreover have "log' = log @ map fallback_prompt (filter (\<lambda>l. l \<noteq> []) (line # lines))"
    using lg e ne by (cases "line = []") auto
  ultimately show ?case by blast
qed

lemma translate_lines_length:
  "translate_lines codex str_other lines log = (Inr res, log') \<Longrightarrow> length res = length lines"
  by (auto simp: translate_lines_def split: if_splits prod.splits step.splits sum.splits
      dest: structured_loop_Return_length)

text \<open>
  C8. For the empty input list, \<open>translate_lines\<close> returns the empty list at once: the
  list of prompts sent is unchanged, so no oracle call and no structured attempt is made.
\<close>

theorem translate_lines_empty: "translate_lines codex str_other [] log = (Inr [], log)"
  by (simp add: translate_lines_def)

subsection \<open>Running the decoder on concrete responses\<close>

lemmas scan_once_numeral = scan_once.simps(2) [of "pred_numeral k" s, folded numeral_eq_Suc] for k s
lemmas parse_elems_numeral =
  parse_elems.simps(2) [of "pred_numeral k" s acc, folded numeral_eq_Suc] for k s acc
lemmas parse_members_numeral =
  parse_members.simps(2) [of "pred_numeral k" s acc, folded numeral_eq_Suc] for k s acc
lemmas json_eval = json_loads_def scan_once_numeral parse_elems_numeral parse_members_numeral
  ascii_def skip_ws_def is_ws_def match_number_def is_digit_def
  int_of_digits_def backslash_def decode_uXXXX_def hex_val_def

lemma loads_oops: "json_loads (ascii ''oops'') = None"
  by (simp add: json_eval)

lemma loads_empty_object: "json_loads (ascii ''{}'') = Some (JObject [])"
  by (simp add: json_eval)

lemma loads_greeting:
  "json_loads (ascii ''[{\"id\":0,\"text\":\"X\"}]'') =
     Some (JArray [JObject [(ascii ''id'', JInt 0), (ascii ''text'', JString (ascii ''X''))]])"
  by (simp add: json_eval)


lemma loads_wrapped: "json_loads wrapped_response = None"
  by (simp add: wrapped_response_def privet_def json_eval)

lemma find_wrapped: "find_char 91 wrapped_response = Some 13"
  by (simp add: wrapped_response_def privet_def ascii_def)

lemma rfind_wrapped: "rfind_char 93 wrapped_response = Some 38"
  by (simp add: wrapped_response_def privet_def ascii_def rfind_char_def)

lemma slice_wrapped:
  "slice wrapped_response 13 39 = ascii ''[{\"id\":0,\"text\":\"'' @ privet @ ascii ''\"}]''"
  by (simp add: wrapped_response_def privet_def ascii_def slice_def)

lemma loads_slice_wrapped:
  "json_loads (ascii ''[{\"id\":0,\"text\":\"'' @ privet @ ascii ''\"}]'') =
     Some (JArray [JObject [(ascii ''id'', JInt 0), (ascii ''text'', JString privet)]])"
  by (simp add: privet_def json_eval)

lemma strip_oops: "strip (ascii ''oops'') = ascii ''oops''"
  by (simp add: strip_def ascii_def is_space_def)

lemma strip_empty_object: "strip (ascii ''{}'') = ascii ''{}''"
  by (simp add: strip_def ascii_def is_space_def)

lemma strip_greeting: "strip (ascii ''[{\"id\":0,\"text\":\"X\"}]'') = ascii ''[{\"id\":0,\"text\":\"X\"}]''"
  by (simp add: strip_def ascii_def is_space_def)


lemma strip_wrapped: "strip wrapped_response = wrapped_response"
  by (simp add: wrapped_response_def privet_def strip_def ascii_def is_space_def)

lemma find_oops: "find_char 91 (ascii ''oops'') = None"
  by (simp add: ascii_def)

lemma attempt_body_oops:
  "attempt_body str_other lines attempt (ascii ''oops'') =
     (if attempt = 2
      then Raise (ValueError (ascii ''Model response is not JSON array: '' @ ascii ''oops''))
      else Continue)"
  by (simp add: attempt_body_def loads_oops find_oops)

lemma attempt_body_empty_object:
  "attempt_body str_other lines attempt (ascii ''{}'') = Continue"
  by (simp add: attempt_body_def loads_empty_object validate_def)

lemma get_text_id_text:
  "item_get_text (JObject [(ascii ''id'', i), (ascii ''text'', v)]) = Inr v"
  by (simp add: item_get_text_def ascii_def)

lemma attempt_body_greeting:
  "attempt_body str_other [line] attempt (ascii ''[{\"id\":0,\"text\":\"X\"}]'') =
     Return [JString (ascii ''X'')]"
  by (simp add: attempt_body_def loads_greeting validate_def is_dict_def get_text_id_text)

lemma attempt_body_wrapped:
  "attempt_body str_other [line] attempt wrapped_response = Return [JString privet]"
  by (simp add: attempt_body_def loads_wrapped find_wrapped rfind_wrapped
      slice_wrapped loads_slice_wrapped validate_def is_dict_def get_text_id_text)

lemma hi_nonempty: "ascii ''Hi'' \<noteq> []"
  by (simp add: ascii_def)

lemma fallback_loop_total:
  "\<forall>lg. \<forall>l\<in>set lines. l \<noteq> [] \<longrightarrow> codex lg (fallback_prompt l) \<noteq> None \<Longrightarrow>
   \<exists>res. fallback_loop codex lines acc log =
            (Inr res, log @ map fallback_prompt (filter (\<lambda>l. l \<noteq> []) lines)) \<and>
         length res = length acc + length lines"
proof (induction lines arbitrary: acc log)
  case Nil
  then show ?case by simp
next
  case (Cons line lines)
  then have rest: "\<forall>lg. \<forall>l\<in>set lines. l \<noteq> [] \<longrightarrow> codex lg (fallback_prompt l) \<noteq> None"
    by simp
  show ?case
  proof (cases "line = []")
    case True
    with Cons.IH [OF rest, of "acc @ [[]]" log] show ?thesis by auto
  next
    case False
    with Cons.prems obtain out where out: "codex log (fallback_prompt line) = Some out"
      by fastforce
    with False Cons.IH [OF rest, of "acc @ [strip (strip out)]" "log @ [fallback_prompt line]"]
    show ?thesis by (auto simp: call_codex_Some)
  qed
qed


lemma validate_length_only:
  "length lines' = length lines \<Longrightarrow> validate str_other lines' v = validate str_other lines v"
  by (auto simp: validate_def Let_def split: json.splits sum.splits)

lemma attempt_body_length_only:
  "length lines' = length lines \<Longrightarrow>
   attempt_body str_other lines' attempt raw = attempt_body str_other lines attempt raw"
  by (auto simp: attempt_body_def validate_length_only [of lines' lines] split: option.splits)

lemma text_lines_count: "length (text_lines_of batch) = sum_list (line_counts_of batch)"
  by (simp add: text_lines_of_def line_counts_of_def length_concat comp_def)

text \<open>
  C1, as stated, fails: an oracle that always answers \<open>oops\<close> (not JSON, no bracket) makes
  \<open>translate_lines\<close> raise \<open>ValueError\<close> on the third attempt, after three structured calls
  and without any fallback call.
\<close>

theorem prose_response_raises:
  "translate_lines prose_codex no_str_other [ascii ''Hi''] [] =
     (Inl (ValueError (ascii ''Model response is not JSON array: '' @ ascii ''oops'')),
      [structured_prompt [ascii ''Hi''], structured_prompt [ascii ''Hi''],
       structured_prompt [ascii ''Hi'']])"
  by (simp add: translate_lines_def hi_nonempty structured_loop_unfold prose_codex_def
      strip_oops attempt_body_oops)

text \<open>
  C1, amended. For a non-empty input, when each of the three structured attempts is discarded
  (\<open>attempt_body\<close> goes on: the response decodes, directly or from its bracket substring, to
  something that is not an array of the input's length, or, on the first two attempts only,
  does not decode and lacks a bracket) and the oracle answers the fallback prompts, the
  fallback runs: the prompts sent are exactly three structured prompts followed by one
  fallback prompt per non-empty line, and the result has the input's length. When the first
  two attempts are discarded and the third response does not decode and lacks \<open>[\<close> or \<open>]\<close>,
  \<open>ValueError\<close> is raised after exactly three structured calls, with no fallback call.
\<close>

theorem discarded_attempts_then_fallback:
  "(lines \<noteq> [] \<and>
    (\<forall>a<3. \<exists>raw. codex (log @ replicate a (structured_prompt lines)) (structured_prompt lines)
                      = Some raw \<and>
                    attempt_body str_other lines a (strip raw) = Continue) \<and>
    (\<forall>lg. \<forall>l\<in>set lines. l \<noteq> [] \<longrightarrow> codex lg (fallback_prompt l) \<noteq> None)
    \<longrightarrow> (\<exists>res. translate_lines codex str_other lines log =
                 (Inr res, log @ replicate 3 (structured_prompt lines)
                             @ map fallback_prompt (filter (\<lambda>l. l \<noteq> []) lines)) \<and>
               length res = length lines))
   \<and>
   (lines \<noteq> [] \<and>
    (\<forall>a<2. \<exists>raw. codex (log @ replicate a (structured_prompt lines)) (structured_prompt lines)
                      = Some raw \<and>
                    attempt_body str_other lines a (strip raw) = Continue) \<and>
    codex (log @ replicate 2 (structured_prompt lines)) (structured_prompt lines) = Some raw3 \<and>
    json_loads (strip raw3) = None \<and>
    (find_char 91 (strip raw3) = None \<or> rfind_char 93 (strip raw3) = None)
    \<longrightarrow> translate_lines codex str_other lines log =
          (Inl (ValueError (ascii ''Model response is not JSON array: '' @ strip raw3)),
           log @ replicate 3 (structured_prompt lines)))"
proof (intro conjI impI)
  let ?P = "structured_prompt lines"
  assume h: "lines \<noteq> [] \<and>
    (\<forall>a<3. \<exists>raw. codex (log @ replicate a ?P) ?P = Some raw \<and>
                    attempt_body str_other lines a (strip raw) = Continue) \<and>
    (\<forall>lg. \<forall>l\<in>set lines. l \<noteq> [] \<longrightarrow> codex lg (fallback_prompt l) \<noteq> None)"
  then obtain r0 r1 r2 where
    r0: "codex log ?P = Some r0" "attempt_body str_other lines 0 (strip r0) = Continue" and
    r1: "codex (log @ [?P]) ?P = Some r1" "attempt_body str_other lines 1 (strip r1) = Continue" and
    r2: "codex (log @ [?P, ?P]) ?P = Some r2" "attempt_body str_other lines 2 (strip r2) = Continue"
  proof -
    from h have a: "\<forall>a<3. \<exists>raw. codex (log @ replicate a ?P) ?P = Some raw \<and>
                    attempt_body str_other lines a (strip raw) = Continue" by blast
    from a [rule_format, of 0] obtain x0 where
      "codex log ?P = Some x0" "attempt_body str_other lines 0 (strip x0) = Continue" by auto
    moreover from a [rule_format, of 1] obtain x1 where
      "codex (log @ [?P]) ?P = Some x1" "attempt_body str_other lines 1 (strip x1) = Continue"
      by auto
    moreover from a [rule_format, of 2] obtain x2 where
      "codex (log @ [?P, ?P]) ?P = Some x2" "attempt_body str_other lines 2 (strip x2) = Continue"
      by (auto simp: numeral_2_eq_2)
    ultimately show ?thesis using that by blast
  qed
  have loop: "structured_loop codex str_other lines 0 log = (Continue, log @ [?P, ?P, ?P])"
    using r0 r1 r2 by (simp add: structured_loop_unfold numeral_2_eq_2)
  from h have fb: "\<forall>lg. \<forall>l\<in>set lines. l \<noteq> [] \<longrightarrow> codex lg (fallback_prompt l) \<noteq> None"
    by blast
  from fallback_loop_total [OF fb, of "[]" "log @ [?P, ?P, ?P]"] obtain res where
    res: "fallback_loop codex lines [] (log @ [?P, ?P, ?P]) =
            (Inr res, (log @ [?P, ?P, ?P]) @ map fallback_prompt (filter (\<lambda>l. l \<noteq> []) lines))"
      "length res = length lines" by auto
  have rep: "replicate 3 ?P = [?P, ?P, ?P]" by (simp add: numeral_3_eq_3)
  from h loop res rep
  show "\<exists>res. translate_lines codex str_other lines log =
                 (Inr res, log @ replicate 3 ?P
                             @ map fallback_prompt (filter (\<lambda>l. l \<noteq> []) lines)) \<and>
               length res = length lines"
    by (simp add: translate_lines_def)
next
  let ?P = "structured_prompt lines"
  assume h: "lines \<noteq> [] \<and>
    (\<forall>a<2. \<exists>raw. codex (log @ replicate a ?P) ?P = Some raw \<and>
                    attempt_body str_other lines a (strip raw) = Continue) \<and>
    codex (log @ replicate 2 ?P) ?P = Some raw3 \<and>
    json_loads (strip raw3) = None \<and>
    (find_char 91 (strip raw3) = None \<or> rfind_char 93 (strip raw3) = None)"
  then have a: "\<forall>a<2. \<exists>raw. codex (log @ replicate a ?P) ?P = Some raw \<and>
                    attempt_body str_other lines a (strip raw) = Continue" by blast
  from a [rule_format, of 0] obtain r0 where
    r0: "codex log ?P = Some r0" "attempt_body str_other lines 0 (strip r0) = Continue" by auto
  from a [rule_format, of 1] obtain r1 where
    r1: "codex (log @ [?P]) ?P = Some r1" "attempt_body str_other lines 1 (strip r1) = Continue"
    by auto
  from h have r2: "codex (log @ [?P, ?P]) ?P = Some raw3" by (simp add: numeral_2_eq_2)
  from h have body: "attempt_body str_other lines 2 (strip raw3) =
      Raise (ValueError (ascii ''Model response is not JSON array: '' @ strip raw3))"
    by (auto simp: attempt_body_def split: option.splits)
  have loop: "structured_loop codex str_other lines 0 log =
      (Raise (ValueError (ascii ''Model response is not JSON array: '' @ strip raw3)),
       log @ [?P, ?P, ?P])"
    using r0 r1 r2 body by (simp add: structured_loop_unfold numeral_2_eq_2)
  have rep: "replicate 3 ?P = [?P, ?P, ?P]" by (simp add: numeral_3_eq_3)
  from h loop rep
  show "translate_lines codex str_other lines log =
          (Inl (ValueError (ascii ''Model response is not JSON array: '' @ strip raw3)),
           log @ replicate 3 ?P)"
    by (simp add: translate_lines_def)
qed

text \<open>The amended C1 at concrete oracles: one that always answers \<open>{}\<close>, one that always
  answers \<open>oops\<close>.\<close>

theorem discarded_attempts_then_fallback_witness:
  "(\<exists>res. translate_lines object_codex no_str_other [[], ascii ''Hi''] [] =
        (Inr res, replicate 3 (structured_prompt [[], ascii ''Hi''])
                    @ [fallback_prompt (ascii ''Hi'')]) \<and>
      length res = 2) \<and>
   translate_lines prose_codex no_str_other [[], ascii ''Hi''] [] =
     (Inl (ValueError (ascii ''Model response is not JSON array: '' @ ascii ''oops'')),
      replicate 3 (structured_prompt [[], ascii ''Hi'']))"
  using discarded_attempts_then_fallback
    [of "[[], ascii ''Hi'']" object_codex "[]" no_str_other]
    discarded_attempts_then_fallback
    [of "[[], ascii ''Hi'']" prose_codex "[]" no_str_other "ascii ''oops''"]
  by (simp add: object_codex_def prose_codex_def strip_empty_object strip_oops
      attempt_body_empty_object attempt_body_oops loads_oops find_oops hi_nonempty
      numeral_2_eq_2)

text \<open>
  C4, as stated, fails in structured mode: for the single empty input line and an oracle that
  answers \<open>[{"id":0,"text":"X"}]\<close>, the output is \<open>X\<close>, not the empty string.
\<close>

theorem structured_blank_line_not_kept:
  "translate_lines greeting_codex no_str_other [[]] [] =
     (Inr [JString (ascii ''X'')], [structured_prompt [[]]])"
  by (simp add: translate_lines_def structured_loop_unfold greeting_codex_def strip_greeting
      attempt_body_greeting)

text \<open>
  C4, amended. In fallback mode (the structured loop went on to the fallback and
  \<open>translate_lines\<close> returned), every input line equal to the empty string gives the empty
  string, and the fallback sends one prompt per non-empty line and none for an empty one. In
  structured mode the check of a response uses only the number of input lines, never their
  content, so the output for an empty line is what the accepted response holds there.
\<close>

theorem fallback_blank_lines:
  "(lines \<noteq> [] \<and> structured_loop codex str_other lines 0 log = (Continue, log1) \<and>
    translate_lines codex str_other lines log = (Inr res, log2) \<longrightarrow>
      (\<forall>i<length lines. lines ! i = [] \<longrightarrow> res ! i = JString []) \<and>
      log2 = log1 @ map fallback_prompt (filter (\<lambda>l. l \<noteq> []) lines)) \<and>
   (length lines' = length lines \<longrightarrow>
      attempt_body str_other lines' attempt raw = attempt_body str_other lines attempt raw)"
proof (rule conjI; rule impI)
  assume h: "lines \<noteq> [] \<and> structured_loop codex str_other lines 0 log = (Continue, log1) \<and>
    translate_lines codex str_other lines log = (Inr res, log2)"
  then have ne: "lines \<noteq> []"
    and sl: "structured_loop codex str_other lines 0 log = (Continue, log1)"
    and tr: "translate_lines codex str_other lines log = (Inr res, log2)" by blast+
  obtain r lg where fl: "fallback_loop codex lines [] log1 = (r, lg)"
    by (cases "fallback_loop codex lines [] log1")
  from tr ne sl fl obtain tls where r: "r = Inr tls" and lg: "lg = log2"
    and res: "res = map JString tls" "length tls = length lines"
    by (cases r) (auto simp: translate_lines_def split: if_splits)
  from fl r lg have fb: "fallback_loop codex lines [] log1 = (Inr tls, log2)" by simp
  from fallback_loop_spec [OF fb] res
  show "(\<forall>i<length lines. lines ! i = [] \<longrightarrow> res ! i = JString []) \<and>
      log2 = log1 @ map fallback_prompt (filter (\<lambda>l. l \<noteq> []) lines)"
    by auto
next
  assume "length lines' = length lines"
  then show "attempt_body str_other lines' attempt raw = attempt_body str_other lines attempt raw"
    by (rule attempt_body_length_only)
qed

lemma fallback_loop_hi:
  "fallback_loop object_codex [[], ascii ''Hi''] [] log =
     (Inr [[], ascii ''{}''], log @ [fallback_prompt (ascii ''Hi'')])"
  by (simp add: hi_nonempty call_codex_def object_codex_def strip_empty_object)

lemma structured_loop_object:
  "structured_loop object_codex str_other lines 0 log =
     (Continue, log @ [structured_prompt lines, structured_prompt lines, structured_prompt lines])"
  by (simp add: structured_loop_unfold object_codex_def strip_empty_object
      attempt_body_empty_object numeral_2_eq_2)

lemma translate_lines_object:
  "translate_lines object_codex no_str_other [[], ascii ''Hi''] [] =
     (Inr [JString [], JString (ascii ''{}'')],
      [structured_prompt [[], ascii ''Hi''], structured_prompt [[], ascii ''Hi''],
       structured_prompt [[], ascii ''Hi''], fallback_prompt (ascii ''Hi'')])"
  by (simp add: translate_lines_def structured_loop_object fallback_loop_hi
      del: fallback_loop.simps)

text \<open>The amended C4 at the oracle that always answers \<open>{}\<close>, for an empty line followed
  by \<open>Hi\<close>.\<close>

theorem fallback_blank_lines_witness:
  "translate_lines object_codex no_str_other [[], ascii ''Hi''] [] =
     (Inr [JString [], JString (ascii ''{}'')],
      [structured_prompt [[], ascii ''Hi''], structured_prompt [[], ascii ''Hi''],
       structured_prompt [[], ascii ''Hi''], fallback_prompt (ascii ''Hi'')]) \<and>
   [[], ascii ''Hi''] ! 0 = [] \<and>
   [JString [], JString (ascii ''{}'')] ! 0 = JString [] \<and>
   [structured_prompt [[], ascii ''Hi''], structured_prompt [[], ascii ''Hi''],
    structured_prompt [[], ascii ''Hi''], fallback_prompt (ascii ''Hi'')] =
   [structured_prompt [[], ascii ''Hi''], structured_prompt [[], ascii ''Hi''],
    structured_prompt [[], ascii ''Hi'']]
     @ map fallback_prompt (filter (\<lambda>l. l \<noteq> []) [[], ascii ''Hi'']) \<and>
   attempt_body no_str_other [ascii ''Hello'', ascii ''World''] 0 (ascii ''{}'') =
     attempt_body no_str_other [[], ascii ''Hi''] 0 (ascii ''{}'')"
  using fallback_blank_lines
    [where codex = object_codex and str_other = no_str_other and lines = "[[], ascii ''Hi'']"
       and log = "[]"
       and ?log1.0 = "[structured_prompt [[], ascii ''Hi''], structured_prompt [[], ascii ''Hi''],
          structured_prompt [[], ascii ''Hi'']]"
       and res = "[JString [], JString (ascii ''{}'')]"
       and ?log2.0 = "[structured_prompt [[], ascii ''Hi''], structured_prompt [[], ascii ''Hi''],
          structured_prompt [[], ascii ''Hi''], fallback_prompt (ascii ''Hi'')]"
       and lines' = "[ascii ''Hello'', ascii ''World'']" and attempt = 0
       and raw = "ascii ''{}''"]
  by (simp add: structured_loop_object translate_lines_object hi_nonempty numeral_2_eq_2)

text \<open>
  C5. For every batch of blocks, when \<open>translate_lines\<close> returns on the flattened text lines
  (from the structured path or from the fallback), the result has as many entries as the
  flattened list, which has as many as the sum of the blocks' text-line counts, the count of
  a block being its length less the index and time lines.
\<close>

theorem count_preservation:
  "translate_lines codex str_other (text_lines_of batch) log = (Inr res, log') \<Longrightarrow>
   length res = length (text_lines_of batch) \<and>
   length (text_lines_of batch) = sum_list (line_counts_of batch) \<and>
   line_counts_of batch = map (\<lambda>block. length block - 2) batch"
  by (simp add: translate_lines_length text_lines_count) (simp add: line_counts_of_def)

text \<open>C5 at a one-block batch and the oracle that answers \<open>[{"id":0,"text":"X"}]\<close>.\<close>

theorem count_preservation_witness:
  "length [JString (ascii ''X'')] = length (text_lines_of [[ascii ''1'', ascii ''t'', ascii ''Hi'']]) \<and>
   length (text_lines_of [[ascii ''1'', ascii ''t'', ascii ''Hi'']])
     = sum_list (line_counts_of [[ascii ''1'', ascii ''t'', ascii ''Hi'']]) \<and>
   line_counts_of [[ascii ''1'', ascii ''t'', ascii ''Hi'']] = [1]"
proof -
  have tl: "text_lines_of [[ascii ''1'', ascii ''t'', ascii ''Hi'']] = [ascii ''Hi'']"
    by (simp add: text_lines_of_def)
  have run: "translate_lines greeting_codex no_str_other
               (text_lines_of [[ascii ''1'', ascii ''t'', ascii ''Hi'']]) [] =
             (Inr [JString (ascii ''X'')], [structured_prompt [ascii ''Hi'']])"
    by (simp add: tl translate_lines_def structured_loop_unfold greeting_codex_def
        strip_greeting attempt_body_greeting)
  from count_preservation [OF run] show ?thesis
    by (simp add: text_lines_of_def line_counts_of_def)
qed

text \<open>
  C7. When the direct parse of a response fails and the text from its first \<open>[\<close> to its last
  \<open>]\<close> parses, the attempt goes on with that value exactly as with a directly parsed one. In
  particular the response \<open>wrapped_response\<close> does not parse, its bracket substring is
  \<open>[{"id":0,"text":"Privet"}]\<close> (the word in Cyrillic), and for a one-line input an oracle
  giving that response makes \<open>translate_lines\<close> return the single line \<open>privet\<close> after one
  call.
\<close>

theorem bracket_recovery:
  "(json_loads raw = None \<and> find_char 91 raw = Some start \<and> rfind_char 93 raw = Some end \<and>
    json_loads (slice raw start (end + 1)) = Some v \<longrightarrow>
      attempt_body str_other lines attempt raw = validate str_other lines v) \<and>
   json_loads wrapped_response = None \<and>
   (\<exists>start end. find_char 91 wrapped_response = Some start \<and>
      rfind_char 93 wrapped_response = Some end \<and>
      slice wrapped_response start (end + 1) =
        ascii ''[{\"id\":0,\"text\":\"'' @ privet @ ascii ''\"}]'') \<and>
   (codex log (structured_prompt [line]) = Some wrapped_response \<longrightarrow>
      translate_lines codex str_other [line] log =
        (Inr [JString privet], log @ [structured_prompt [line]]))"
proof (intro conjI impI)
  assume "json_loads raw = None \<and> find_char 91 raw = Some start \<and>
    rfind_char 93 raw = Some end \<and> json_loads (slice raw start (end + 1)) = Some v"
  then show "attempt_body str_other lines attempt raw = validate str_other lines v"
    by (simp add: attempt_body_def)
next
  show "json_loads wrapped_response = None" by (rule loads_wrapped)
next
  show "\<exists>start end. find_char 91 wrapped_response = Some start \<and>
      rfind_char 93 wrapped_response = Some end \<and>
      slice wrapped_response start (end + 1) =
        ascii ''[{\"id\":0,\"text\":\"'' @ privet @ ascii ''\"}]''"
    using find_wrapped rfind_wrapped slice_wrapped by simp
next
  assume "codex log (structured_prompt [line]) = Some wrapped_response"
  then show "translate_lines codex str_other [line] log =
        (Inr [JString privet], log @ [structured_prompt [line]])"
    by (simp add: translate_lines_def structured_loop_unfold strip_wrapped attempt_body_wrapped)
qed

text \<open>C7 at the oracle that always gives \<open>wrapped_response\<close>.\<close>

theorem bracket_recovery_witness:
  "attempt_body no_str_other [ascii ''Hello''] 0 wrapped_response =
     validate no_str_other [ascii ''Hello'']
       (JArray [JObject [(ascii ''id'', JInt 0), (ascii ''text'', JString privet)]]) \<and>
   translate_lines wrapped_codex no_str_other [ascii ''Hello''] [] =
     (Inr [JString privet], [structured_prompt [ascii ''Hello'']])"
  using bracket_recovery
    [where raw = wrapped_response and start = 13 and ?end = 38
       and v = "JArray [JObject [(ascii ''id'', JInt 0), (ascii ''text'', JString privet)]]"
       and str_other = no_str_other and lines = "[ascii ''Hello'']" and attempt = 0
       and codex = wrapped_codex and log = "[]" and line = "ascii ''Hello''"]
  by (simp add: loads_wrapped find_wrapped rfind_wrapped slice_wrapped loads_slice_wrapped
      wrapped_codex_def)



section \<open>Sample inputs\<close>

lemma parse_sample: "parse_srt_blocks sample_text = [sample_block]"
  by (simp add: sample_text_def sample_block_def parse_srt_blocks_def splitlines_def ascii_def
      is_linebreak_def strip_def is_space_def)

lemma text_lines_sample: "text_lines_of [sample_block] = [ascii ''Hi'']"
  by (simp add: text_lines_of_def sample_block_def)

section \<open>Oracle failures\<close>

lemma answered_append:
  "answered codex log (e1 @ e2) \<longleftrightarrow> answered codex log e1 \<and> answered codex (log @ e1) e2"
  by (induction e1 arbitrary: log) auto

lemma answered_nth:
  "answered codex log ext \<Longrightarrow> j < length ext \<Longrightarrow> codex (log @ take j ext) (ext ! j) \<noteq> None"
proof (induction ext arbitrary: log j)
  case Nil
  then show ?case by simp
next
  case (Cons p ext)
  show ?case
  proof (cases j)
    case 0
    with Cons.prems show ?thesis by simp
  next
    case (Suc k)
    with Cons.prems Cons.IH [of "log @ [p]" k] show ?thesis by simp
  qed
qed

lemma run_calls_okI: "answered codex log ext \<Longrightarrow> run_calls codex log (log @ ext) False"
  by (simp add: run_calls_def)

lemma run_calls_failI:
  "answered codex log ext \<Longrightarrow> codex (log @ ext) p = None \<Longrightarrow>
   run_calls codex log (log @ ext @ [p]) True"
  by (simp add: run_calls_def butlast_append)

lemma run_calls_refl: "run_calls codex log log False"
  by (simp add: run_calls_def)

lemma run_calls_okE:
  assumes "run_calls codex log log' False"
  obtains ext where "log' = log @ ext" "answered codex log ext"
proof
  from assms show "log' = log @ drop (length log) log'"
    by (metis append_take_drop_id run_calls_def)
  from assms show "answered codex log (drop (length log) log')"
    by (simp add: run_calls_def Let_def)
qed

lemma run_calls_failE:
  assumes "run_calls codex log log' True"
  obtains ext p where "log' = log @ ext @ [p]" "answered codex log ext"
    "codex (log @ ext) p = None"
proof -
  let ?ext = "drop (length log) log'"
  from assms have "take (length log) log' = log \<and> ?ext \<noteq> [] \<and>
      answered codex log (butlast ?ext) \<and> codex (log @ butlast ?ext) (last ?ext) = None"
    by (simp add: run_calls_def Let_def del: last_drop)
  then have tk: "take (length log) log' = log" and ne: "?ext \<noteq> []"
    and an: "answered codex log (butlast ?ext)"
    and fl: "codex (log @ butlast ?ext) (last ?ext) = None"
    by blast+
  have whole: "log' = log @ ?ext" by (metis append_take_drop_id tk)
  have "butlast ?ext @ [last ?ext] = ?ext" using ne by (rule append_butlast_last_id)
  with whole have "log' = log @ butlast ?ext @ [last ?ext]" by metis
  then show ?thesis using an fl by (rule that)
qed

lemma run_calls_trans:
  assumes "run_calls codex log log1 False" "run_calls codex log1 log2 failed"
  shows "run_calls codex log log2 failed"
proof -
  from assms(1) obtain e1 where l1: "log1 = log @ e1" and a1: "answered codex log e1"
    by (rule run_calls_okE)
  show ?thesis
  proof (cases failed)
    case True
    with assms(2) obtain e2 p where l2: "log2 = log1 @ e2 @ [p]"
      and a2: "answered codex log1 e2" and f: "codex (log1 @ e2) p = None"
      by (auto elim: run_calls_failE)
    from a1 a2 l1 have "answered codex log (e1 @ e2)" by (simp add: answered_append)
    moreover from f l1 have "codex (log @ e1 @ e2) p = None" by simp
    ultimately have "run_calls codex log (log @ (e1 @ e2) @ [p]) True"
      by (intro run_calls_failI) simp_all
    with l1 l2 True show ?thesis by simp
  next
    case False
    with assms(2) obtain e2 where l2: "log2 = log1 @ e2" and a2: "answered codex log1 e2"
      by (auto elim: run_calls_okE)
    from a1 a2 l1 have "answered codex log (e1 @ e2)" by (simp add: answered_append)
    then have "run_calls codex log (log @ e1 @ e2) False" by (rule run_calls_okI)
    with l1 l2 False show ?thesis by simp
  qed
qed

lemma run_calls_failed_call:
  assumes "run_calls codex log log' failed" "length log \<le> i" "i < length log'"
    "codex (take i log') (log' ! i) = None"
  shows "failed \<and> Suc i = length log'"
proof -
  define j where "j = i - length log"
  have i: "i = length log + j" using assms(2) by (simp add: j_def)
  show ?thesis
  proof (cases failed)
    case False
    with assms(1) obtain ext where l: "log' = log @ ext" and a: "answered codex log ext"
      by (auto elim: run_calls_okE)
    from assms(3) l i have "j < length ext" by simp
    from answered_nth [OF a this] assms(4) l i show ?thesis by (simp add: nth_append)
  next
    case True
    with assms(1) obtain ext p where l: "log' = log @ ext @ [p]"
      and a: "answered codex log ext" by (auto elim: run_calls_failE)
    show ?thesis
    proof (cases "j < length ext")
      case jl: True
      from answered_nth [OF a jl] assms(4) l i jl show ?thesis by (simp add: nth_append)
    next
      case False
      with assms(3) l i have "j = length ext" by simp
      with l i True show ?thesis by simp
    qed
  qed
qed

lemma get_texts_error: "get_texts items = Inl e \<Longrightarrow> e = AttributeError"
  by (induction items arbitrary: e)
     (auto simp: item_get_text_def split: sum.splits json.splits option.splits)

lemma validate_not_oracle: "validate str_other lines v \<noteq> Raise OracleFailure"
  by (auto simp: validate_def Let_def split: json.splits sum.splits dest: get_texts_error)

lemma attempt_body_not_oracle:
  "attempt_body str_other lines attempt raw \<noteq> Raise OracleFailure"
  by (auto simp: attempt_body_def validate_not_oracle split: option.splits)

lemma structured_loop_calls:
  "structured_loop codex str_other lines attempt log = (r, log') \<Longrightarrow>
   run_calls codex log log' (r = Raise OracleFailure)"
proof (induction codex str_other lines attempt log rule: structured_loop.induct)
  case (1 codex str_other lines attempt log)
  let ?P = "structured_prompt lines"
  show ?case
  proof (cases "3 \<le> attempt")
    case True
    with "1.prems" show ?thesis by (simp add: structured_loop_done run_calls_refl)
  next
    case False
    then have lt: "attempt < 3" by simp
    note eq = "1.prems" [unfolded structured_loop_unfold [OF lt]]
    show ?thesis
    proof (cases "codex log ?P")
      case None
      with eq have r: "r = Raise OracleFailure" and l: "log' = log @ [] @ [?P]" by simp_all
      from None have "run_calls codex log (log @ [] @ [?P]) True"
        by (intro run_calls_failI) simp_all
      with r l show ?thesis by simp
    next
      case (Some out)
      then have one: "run_calls codex log (log @ [?P]) False"
        by (intro run_calls_okI) simp
      show ?thesis
      proof (cases "attempt_body str_other lines attempt (strip out) = Continue \<and> attempt \<noteq> 2")
        case True
        with Some eq have rec: "structured_loop codex str_other lines (attempt + 1) (log @ [?P])
            = (r, log')" by simp
        from True have cont: "attempt_body str_other lines attempt (strip out) = Continue"
          and ne: "attempt \<noteq> 2" by simp_all
        from Some have cc: "call_codex codex ?P log = (Inr (strip out), log @ [?P])"
          by (rule call_codex_Some)
        have "run_calls codex (log @ [?P]) log' (r = Raise OracleFailure)"
          by (rule "1.IH" [OF False cc [symmetric] refl cont ne rec])
        with one show ?thesis by (rule run_calls_trans)
      next
        case False
        with Some eq have l: "log' = log @ [?P]"
          and r: "r = attempt_body str_other lines attempt (strip out)"
          by (auto split: step.splits if_splits)
        from r have "r \<noteq> Raise OracleFailure" by (simp add: attempt_body_not_oracle)
        with one l show ?thesis by simp
      qed
    qed
  qed
qed

lemma fallback_loop_calls:
  "fallback_loop codex lines acc log = (r, log') \<Longrightarrow>
   run_calls codex log log' (r = Inl OracleFailure)"
proof (induction lines arbitrary: acc log)
  case Nil
  then show ?case by (auto simp: run_calls_refl)
next
  case (Cons line lines)
  show ?case
  proof (cases "line = []")
    case True
    with Cons.prems Cons.IH show ?thesis by simp
  next
    case False
    let ?p = "fallback_prompt line"
    show ?thesis
    proof (cases "codex log ?p")
      case None
      with False Cons.prems have r: "r = Inl OracleFailure" and l: "log' = log @ [] @ [?p]"
        by (simp_all add: call_codex_None)
      from None have "run_calls codex log (log @ [] @ [?p]) True"
        by (intro run_calls_failI) simp_all
      with r l show ?thesis by simp
    next
      case (Some out)
      then have one: "run_calls codex log (log @ [?p]) False"
        by (intro run_calls_okI) simp
      from Some False Cons.prems
      have "fallback_loop codex lines (acc @ [strip (strip out)]) (log @ [?p]) = (r, log')"
        by (simp add: call_codex_Some)
      then have "run_calls codex (log @ [?p]) log' (r = Inl OracleFailure)"
        by (rule Cons.IH)
      with one show ?thesis by (rule run_calls_trans)
    qed
  qed
qed

lemma translate_lines_calls:
  "translate_lines codex str_other lines log = (r, log') \<Longrightarrow>
   run_calls codex log log' (r = Inl OracleFailure)"
proof (cases "lines = []")
  case True
  assume "translate_lines codex str_other lines log = (r, log')"
  with True show ?thesis by (auto simp: translate_lines_def run_calls_refl)
next
  case False
  assume tl: "translate_lines codex str_other lines log = (r, log')"
  obtain s log1 where sl: "structured_loop codex str_other lines 0 log = (s, log1)"
    by (cases "structured_loop codex str_other lines 0 log")
  note c1 = structured_loop_calls [OF sl]
  show ?thesis
  proof (cases s)
    case (Return texts)
    with tl sl False c1 show ?thesis by (auto simp: translate_lines_def)
  next
    case (Raise e)
    with tl sl False c1 show ?thesis by (auto simp: translate_lines_def)
  next
    case Continue
    obtain f log2 where fl: "fallback_loop codex lines [] log1 = (f, log2)"
      by (cases "fallback_loop codex lines [] log1")
    note c2 = fallback_loop_calls [OF fl]
    from Continue c1 have ok1: "run_calls codex log log1 False" by simp
    from tl sl fl False Continue have l: "log' = log2" and r: "r = Inl OracleFailure \<longleftrightarrow> f = Inl OracleFailure"
      by (auto simp: translate_lines_def split: sum.splits if_splits)
    from run_calls_trans [OF ok1 c2] l r show ?thesis by simp
  qed
qed

lemma write_lines_error:
  "write_lines translated_lines index count out = (Some e, index', out') \<Longrightarrow> e \<noteq> OracleFailure"
  by (induction translated_lines index count out rule: write_lines.induct)
     (auto simp: file_write_def split: if_splits json.splits)

lemma write_blocks_error:
  "write_blocks zs translated_lines index out = (Some e, out') \<Longrightarrow> e \<noteq> OracleFailure"
  by (induction zs translated_lines index out rule: write_blocks.induct)
     (auto simp: file_write_def Let_def split: if_splits list.splits prod.splits option.splits
        dest: write_lines_error)

lemma process_batch_calls:
  "process_batch (translate_lines codex str_other) batch out log = (err, out', log') \<Longrightarrow>
   run_calls codex log log' (err = Some OracleFailure)"
proof -
  assume pb: "process_batch (translate_lines codex str_other) batch out log = (err, out', log')"
  obtain r log1 where tl: "translate_lines codex str_other (text_lines_of batch) log = (r, log1)"
    by (cases "translate_lines codex str_other (text_lines_of batch) log")
  note c = translate_lines_calls [OF tl]
  show ?thesis
  proof (cases r)
    case (Inl e)
    with pb tl c show ?thesis by (auto simp: process_batch_def)
  next
    case (Inr ts)
    with pb tl have l: "log' = log1"
      and w: "write_blocks (zip batch (line_counts_of batch)) ts 0 out = (err, out')"
      by (auto simp: process_batch_def split: prod.splits)
    from w have "err \<noteq> Some OracleFailure" by (auto dest: write_blocks_error)
    with c Inr l show ?thesis by simp
  qed
qed

lemma batches_loop_calls:
  "batches_loop (translate_lines codex str_other) blocks start out log = (err, out', log') \<Longrightarrow>
   run_calls codex log log' (err = Some OracleFailure)"
proof (induction "translate_lines codex str_other" blocks start out log
    rule: batches_loop.induct)
  case (1 blocks start out log)
  let ?tr = "translate_lines codex str_other"
  show ?case
  proof (cases "length blocks \<le> start")
    case True
    with "1.prems" show ?thesis
      by (subst (asm) batches_loop.simps) (simp add: run_calls_refl)
  next
    case False
    obtain e1 out1 log1 where
      pb: "process_batch ?tr (take BATCH_SIZE (drop start blocks)) out log = (e1, out1, log1)"
      by (cases "process_batch ?tr (take BATCH_SIZE (drop start blocks)) out log")
    note c = process_batch_calls [OF pb]
    show ?thesis
    proof (cases e1)
      case (Some e)
      with False pb "1.prems" have "err = Some e" "log' = log1"
        by (subst (asm) batches_loop.simps, simp)+
      with c Some show ?thesis by simp
    next
      case None
      with False pb "1.prems"
      have rec: "batches_loop ?tr blocks (start + BATCH_SIZE) out1 log1 = (err, out', log')"
        by (subst (asm) batches_loop.simps) simp
      from None c have ok: "run_calls codex log log1 False" by simp
      have "run_calls codex log1 log' (err = Some OracleFailure)"
        by (rule "1.hyps" [OF False pb [symmetric] None refl rec])
      with ok show ?thesis by (rule run_calls_trans)
    qed
  qed
qed

lemma translate_file_calls:
  "translate_file codex str_other fs log p out_path = (err, fs', log') \<Longrightarrow>
   run_calls codex log log' (err = Some OracleFailure)"
proof -
  assume tf: "translate_file codex str_other fs log p out_path = (err, fs', log')"
  show ?thesis
  proof (cases "fs p")
    case None
    with tf show ?thesis
      by (auto simp: translate_file_def translate_file_with_def run_calls_refl)
  next
    case (Some content)
    obtain e out l where bl: "batches_loop (translate_lines codex str_other)
        (parse_srt_blocks content) 0 [] log = (e, out, l)"
      by (cases "batches_loop (translate_lines codex str_other) (parse_srt_blocks content) 0 [] log")
    with tf Some have "err = e" "log' = l"
      by (simp_all add: translate_file_def translate_file_with_def)
    with batches_loop_calls [OF bl] show ?thesis by simp
  qed
qed

text \<open>
  C2, as stated, fails: with an oracle whose process always fails, the first structured call
  raises out of \<open>translate_lines\<close>; there is one call, no retry and no fallback.
\<close>

theorem failing_oracle_not_retried:
  "translate_lines failing_codex no_str_other [ascii ''Hi''] [] =
     (Inl OracleFailure, [structured_prompt [ascii ''Hi'']])"
  by (simp add: translate_lines_def hi_nonempty structured_loop_unfold failing_codex_def)

text \<open>
  C2, amended. An oracle invocation failure is never caught inside \<open>translate_lines\<close> or
  \<open>translate_file\<close>. Whichever call of a run fails, at any structured attempt or at any
  fallback call, for any line of any batch (the call at position \<open>i\<close> of the final log, made
  in the state the log had before it), that call is the last one made and the run raises the
  failure: \<open>translate_lines\<close> returns it, and so does \<open>translate_file\<close>. It is fatal for the
  file in both modes.
\<close>

theorem oracle_failure_propagates:
  "(translate_lines codex str_other lines log = (r, log') \<and> length log \<le> i \<and> i < length log' \<and>
    codex (take i log') (log' ! i) = None \<longrightarrow> r = Inl OracleFailure \<and> Suc i = length log') \<and>
   (translate_file codex str_other fs log p out_path = (err, fs', log'') \<and> length log \<le> j \<and>
    j < length log'' \<and> codex (take j log'') (log'' ! j) = None \<longrightarrow>
      err = Some OracleFailure \<and> Suc j = length log'')"
proof (rule conjI; rule impI)
  assume h: "translate_lines codex str_other lines log = (r, log') \<and> length log \<le> i \<and>
    i < length log' \<and> codex (take i log') (log' ! i) = None"
  then have "run_calls codex log log' (r = Inl OracleFailure)"
    by (blast intro: translate_lines_calls)
  from run_calls_failed_call [OF this] h
  show "r = Inl OracleFailure \<and> Suc i = length log'" by blast
next
  assume h: "translate_file codex str_other fs log p out_path = (err, fs', log'') \<and>
    length log \<le> j \<and> j < length log'' \<and> codex (take j log'') (log'' ! j) = None"
  then have "run_calls codex log log'' (err = Some OracleFailure)"
    by (blast intro: translate_file_calls)
  from run_calls_failed_call [OF this] h
  show "err = Some OracleFailure \<and> Suc j = length log''" by blast
qed

lemma translate_lines_late_failing:
  "translate_lines late_failing_codex str_other [ascii ''Hi''] [] =
     (Inl OracleFailure,
      [structured_prompt [ascii ''Hi''], structured_prompt [ascii ''Hi''],
       structured_prompt [ascii ''Hi''], fallback_prompt (ascii ''Hi'')])"
  by (simp add: translate_lines_def structured_loop_unfold late_failing_codex_def
      strip_empty_object attempt_body_empty_object hi_nonempty call_codex_def numeral_2_eq_2)

lemma translate_file_late_failing:
  "translate_file late_failing_codex str_other sample_fs [] sample_path (out_path_of sample_path) =
     (Some OracleFailure, sample_fs(out_path_of sample_path \<mapsto> []),
      [structured_prompt [ascii ''Hi''], structured_prompt [ascii ''Hi''],
       structured_prompt [ascii ''Hi''], fallback_prompt (ascii ''Hi'')])"
proof -
  have "batches_loop (translate_lines late_failing_codex str_other) [sample_block] 0 [] [] =
     (Some OracleFailure, [],
      [structured_prompt [ascii ''Hi''], structured_prompt [ascii ''Hi''],
       structured_prompt [ascii ''Hi''], fallback_prompt (ascii ''Hi'')])"
    by (subst batches_loop.simps)
       (simp add: BATCH_SIZE_def process_batch_def text_lines_sample translate_lines_late_failing)
  then show ?thesis
    by (simp add: translate_file_def translate_file_with_def sample_fs_def parse_sample)
qed

text \<open>The amended C2 at the oracle that answers \<open>{}\<close> three times and then fails: the
  fourth call, the first of the fallback, fails.\<close>

theorem oracle_failure_propagates_witness:
  "translate_lines late_failing_codex no_str_other [ascii ''Hi''] [] =
     (Inl OracleFailure,
      [structured_prompt [ascii ''Hi''], structured_prompt [ascii ''Hi''],
       structured_prompt [ascii ''Hi''], fallback_prompt (ascii ''Hi'')]) \<and>
   translate_file late_failing_codex no_str_other sample_fs [] sample_path
       (out_path_of sample_path) =
     (Some OracleFailure, sample_fs(out_path_of sample_path \<mapsto> []),
      [structured_prompt [ascii ''Hi''], structured_prompt [ascii ''Hi''],
       structured_prompt [ascii ''Hi''], fallback_prompt (ascii ''Hi'')]) \<and>
   late_failing_codex
     [structured_prompt [ascii ''Hi''], structured_prompt [ascii ''Hi''],
      structured_prompt [ascii ''Hi'']] (fallback_prompt (ascii ''Hi'')) = None"
proof -
  let ?log = "[structured_prompt [ascii ''Hi''], structured_prompt [ascii ''Hi''],
       structured_prompt [ascii ''Hi''], fallback_prompt (ascii ''Hi'')]"
  have fail: "late_failing_codex (take 3 ?log) (?log ! 3) = None"
    by (simp add: late_failing_codex_def)
  note inst = oracle_failure_propagates
    [where codex = late_failing_codex and str_other = no_str_other and lines = "[ascii ''Hi'']"
       and log = "[]" and r = "Inl OracleFailure" and log' = ?log and i = 3
       and fs = sample_fs and p = sample_path and out_path = "out_path_of sample_path"
       and err = "Some OracleFailure" and fs' = "sample_fs(out_path_of sample_path \<mapsto> [])"
       and log'' = ?log and j = 3]
  from inst fail show ?thesis
    by (simp add: translate_lines_late_failing translate_file_late_failing
        late_failing_codex_def)
qed

section \<open>Properties of reassembly\<close>

lemma splitlines_from_run:
  "\<forall>c\<in>set l. \<not> is_linebreak c \<Longrightarrow>
   splitlines_from cur (l @ rest) = splitlines_from (cur @ l) rest"
  by (induction l arbitrary: cur) (auto simp: is_linebreak_def)

lemma is_linebreak_lf: "is_linebreak 10"
  by (simp add: is_linebreak_def)

lemma splitlines_from_lf: "splitlines_from cur (10 # rest) = cur # splitlines_from [] rest"
  by (simp add: is_linebreak_def)

lemma encodable_lf: "encodable (s @ [10]) = encodable s"
  by (simp add: encodable_def is_surrogate_def)

lemma file_write_line: "encodable s \<Longrightarrow> file_write out (s @ [10]) = Inr (out @ s @ [10])"
  by (simp add: file_write_def encodable_lf)

lemma file_write_lf: "file_write out [10] = Inr (out @ [10])"
  by (simp add: file_write_def encodable_def is_surrogate_def)

lemma write_lines_strings:
  "\<forall>t\<in>set ts. encodable t \<Longrightarrow>
   write_lines (map JString (pre @ ts @ post)) (length pre) (length ts) out =
     (None, length pre + length ts, out @ concat (map (\<lambda>l. l @ [10]) ts))"
proof (induction ts arbitrary: pre out)
  case Nil
  then show ?case by simp
next
  case (Cons t ts)
  have "write_lines (map JString ((pre @ [t]) @ ts @ post)) (length (pre @ [t])) (length ts)
          (out @ t @ [10]) =
        (None, length (pre @ [t]) + length ts, (out @ t @ [10]) @ concat (map (\<lambda>l. l @ [10]) ts))"
    using Cons.prems by (intro Cons.IH) simp
  with Cons.prems show ?case by (simp add: nth_append file_write_line)
qed

lemmas write_lines_strings_nf = write_lines_strings [unfolded map_append]

lemma write_blocks_step:
  assumes "fits block ts"
  shows "write_blocks ((block, length (drop 2 block)) # rest)
           (map JString (pre @ ts @ post)) (length pre) out =
         write_blocks rest (map JString (pre @ ts @ post)) (length pre + length ts)
           (out @ block_text block ts)"
proof -
  from assms have len: "length (drop 2 block) = length ts" and en: "\<forall>t\<in>set ts. encodable t"
    by (simp_all add: fits_def block_lines_def)
  note wl = write_lines_strings_nf [OF en]
  from assms consider (one) x where "block = [x]" | (more) x y r where "block = x # y # r"
    by (cases block; cases "tl block") (auto simp: fits_def)
  then show ?thesis
  proof cases
    case one
    with assms have "encodable x" by (simp add: fits_def block_lines_def)
    then show ?thesis
      unfolding len using one
      by (simp add: wl file_write_line file_write_lf block_text_def block_lines_def
          file_write_line [of "[]", simplified])
  next
    case more
    with assms have "encodable x" "encodable y" by (simp_all add: fits_def block_lines_def)
    then show ?thesis
      unfolding len using more
      by (simp add: wl file_write_line file_write_lf block_text_def block_lines_def)
  qed
qed

lemma write_blocks_batch:
  "list_all2 fits batch tss \<Longrightarrow>
   write_blocks (zip batch (line_counts_of batch)) (map JString (pre @ concat tss)) (length pre) out
     = (None, out @ concat (map2 block_text batch tss))"
proof (induction batch tss arbitrary: pre out rule: list_all2_induct)
  case Nil
  then show ?case by (simp add: line_counts_of_def)
next
  case (Cons block batch ts tss)
  have lc: "line_counts_of (block # batch) = length (drop 2 block) # line_counts_of batch"
    by (simp add: line_counts_of_def)
  from Cons.hyps(1) have len: "length ts = length (drop 2 block)" by (simp add: fits_def)
  have "write_blocks (zip (block # batch) (line_counts_of (block # batch)))
          (map JString (pre @ concat (ts # tss))) (length pre) out =
        write_blocks (zip batch (line_counts_of batch))
          (map JString (pre @ ts @ concat tss)) (length pre + length ts)
          (out @ block_text block ts)"
    using write_blocks_step [OF Cons.hyps(1), of "zip batch (line_counts_of batch)" pre
        "concat tss" out]
    by (simp add: lc)
  also have "\<dots> = (None, (out @ block_text block ts) @ concat (map2 block_text batch tss))"
    using Cons.IH [of "pre @ ts" "out @ block_text block ts"] by simp
  finally show ?case by simp
qed

lemma splitlines_from_lines:
  "\<forall>l\<in>set ls. \<forall>c\<in>set l. \<not> is_linebreak c \<Longrightarrow>
   splitlines_from [] (concat (map (\<lambda>l. l @ [10]) ls) @ rest) = ls @ splitlines_from [] rest"
proof (induction ls)
  case Nil
  then show ?case by simp
next
  case (Cons l ls)
  have "splitlines_from [] ((l @ [10]) @ concat (map (\<lambda>l. l @ [10]) ls) @ rest) =
        splitlines_from l (10 # concat (map (\<lambda>l. l @ [10]) ls) @ rest)"
    using Cons.prems splitlines_from_run [of l "[]"] by simp
  also have "\<dots> = l # splitlines_from [] (concat (map (\<lambda>l. l @ [10]) ls) @ rest)"
    by (rule splitlines_from_lf)
  finally show ?case using Cons by simp
qed

lemma splitlines_block_text:
  "\<forall>l\<in>set (block_lines block ts). \<forall>c\<in>set l. \<not> is_linebreak c \<Longrightarrow>
   splitlines (block_text block ts) = block_lines block ts @ [[]]"
  using splitlines_from_lines [of "block_lines block ts" "[10]"]
  by (simp add: splitlines_def block_text_def is_linebreak_lf)

lemma loads_multiline:
  "json_loads multiline_response =
     Some (JArray [JObject [(ascii ''id'', JInt 0),
                            (ascii ''text'', JString (ascii ''a'' @ [10] @ ascii ''b''))]])"
  by (simp add: multiline_response_def json_eval)

lemma strip_multiline: "strip multiline_response = multiline_response"
  by (simp add: multiline_response_def strip_def ascii_def is_space_def)

lemma attempt_body_multiline:
  "attempt_body str_other [line] attempt multiline_response =
     Return [JString (ascii ''a'' @ [10] @ ascii ''b'')]"
  by (simp add: attempt_body_def loads_multiline validate_def is_dict_def get_text_id_text)

lemma translate_lines_multiline:
  "translate_lines multiline_codex str_other [ascii ''Hi''] [] =
     (Inr [JString (ascii ''a'' @ [10] @ ascii ''b'')], [structured_prompt [ascii ''Hi'']])"
  by (simp add: translate_lines_def structured_loop_unfold multiline_codex_def strip_multiline
      attempt_body_multiline)

text \<open>
  C9, as stated, fails: a translated text can hold a line feed (the escape \<open>\n\<close> of a
  structured response), and then the block of one text line is written as four lines before
  the blank separator, not 2 + 1.
\<close>

theorem multiline_translation_adds_lines:
  "length (drop 2 sample_block) = 1 \<and>
   process_batch (translate_lines multiline_codex no_str_other) [sample_block] [] [] =
     (None,
      ascii ''1'' @ [10] @ ascii ''t'' @ [10] @ ascii ''a'' @ [10] @ ascii ''b'' @ [10] @ [10],
      [structured_prompt [ascii ''Hi'']]) \<and>
   splitlines
     (ascii ''1'' @ [10] @ ascii ''t'' @ [10] @ ascii ''a'' @ [10] @ ascii ''b'' @ [10] @ [10]) =
     [ascii ''1'', ascii ''t'', ascii ''a'', ascii ''b'', []]"
proof -
  have "write_blocks (zip [sample_block] (line_counts_of [sample_block]))
          [JString (ascii ''a'' @ [10] @ ascii ''b'')] 0 [] =
        (None,
         ascii ''1'' @ [10] @ ascii ''t'' @ [10] @ ascii ''a'' @ [10] @ ascii ''b'' @ [10] @ [10])"
    by (simp add: sample_block_def line_counts_of_def file_write_def encodable_def
        is_surrogate_def ascii_def)
  then have "process_batch (translate_lines multiline_codex no_str_other) [sample_block] [] [] =
     (None,
      ascii ''1'' @ [10] @ ascii ''t'' @ [10] @ ascii ''a'' @ [10] @ ascii ''b'' @ [10] @ [10],
      [structured_prompt [ascii ''Hi'']])"
    by (simp add: process_batch_def text_lines_sample translate_lines_multiline)
  moreover have "splitlines
     (ascii ''1'' @ [10] @ ascii ''t'' @ [10] @ ascii ''a'' @ [10] @ ascii ''b'' @ [10] @ [10]) =
     [ascii ''1'', ascii ''t'', ascii ''a'', ascii ''b'', []]"
    by (simp add: splitlines_def ascii_def is_linebreak_def)
  moreover have "length (drop 2 sample_block) = 1"
    by (simp add: sample_block_def)
  ultimately show ?thesis by blast
qed

text \<open>
  C9, amended. When the translated lines fit the blocks of a batch (non-empty blocks, as many
  strings as text lines, every string encodable), reassembly writes for each block the index
  line, the time line (the empty string when the block has fewer than 2 lines) and the
  translated strings, each followed by a line feed, and then a blank line. When none of these
  strings holds a line boundary, the text of the block splits into exactly 2 + count lines
  and the empty separator line. A block of one line is written as its line, an empty line and
  the separator, whatever the translated lines are: two lines where the block had one.
\<close>

theorem reassembly_block_shape:
  "(list_all2 fits batch tss \<longrightarrow>
      write_blocks (zip batch (line_counts_of batch)) (map JString (concat tss)) 0 out =
        (None, out @ concat (map2 block_text batch tss))) \<and>
   (length ts = length (drop 2 block) \<and>
    (\<forall>l\<in>set (block_lines block ts). \<forall>c\<in>set l. \<not> is_linebreak c) \<longrightarrow>
      splitlines (block_text block ts) = block_lines block ts @ [[]] \<and>
      length (splitlines (block_text block ts)) = 2 + length (drop 2 block) + 1) \<and>
   (encodable l \<longrightarrow>
      write_blocks [([l], 0)] translated_lines index out = (None, out @ l @ [10] @ [10] @ [10])) \<and>
   ((\<forall>c\<in>set l. \<not> is_linebreak c) \<longrightarrow> splitlines (l @ [10] @ [10] @ [10]) = [l, [], []])"
proof (intro conjI impI)
  assume "list_all2 fits batch tss"
  from write_blocks_batch [OF this, of "[]" out]
  show "write_blocks (zip batch (line_counts_of batch)) (map JString (concat tss)) 0 out =
        (None, out @ concat (map2 block_text batch tss))" by simp
next
  assume h: "length ts = length (drop 2 block) \<and>
    (\<forall>l\<in>set (block_lines block ts). \<forall>c\<in>set l. \<not> is_linebreak c)"
  then show sp: "splitlines (block_text block ts) = block_lines block ts @ [[]]"
    by (simp add: splitlines_block_text)
  from h show "length (splitlines (block_text block ts)) = 2 + length (drop 2 block) + 1"
    by (simp add: sp block_lines_def)
next
  assume "encodable l"
  then show "write_blocks [([l], 0)] translated_lines index out =
      (None, out @ l @ [10] @ [10] @ [10])"
    by (simp add: file_write_line file_write_lf file_write_line [of "[]", simplified])
next
  assume "\<forall>c\<in>set l. \<not> is_linebreak c"
  then have "splitlines_from [] (concat (map (\<lambda>l. l @ [10]) [l, []]) @ [10]) =
      [l, []] @ splitlines_from [] [10]"
    by (intro splitlines_from_lines) simp
  then show "splitlines (l @ [10] @ [10] @ [10]) = [l, [], []]"
    by (simp add: splitlines_def is_linebreak_lf)
qed

lemma fits_sample: "list_all2 fits [sample_block, [ascii ''7'']] [[ascii ''X''], []]"
  by (simp add: fits_def sample_block_def block_lines_def encodable_def is_surrogate_def
      ascii_def)

text \<open>The amended C9 at a batch of a three-line block and a one-line block.\<close>

theorem reassembly_block_shape_witness:
  "write_blocks (zip [sample_block, [ascii ''7'']] (line_counts_of [sample_block, [ascii ''7'']]))
       (map JString (concat [[ascii ''X''], []])) 0 [] =
     (None, block_text sample_block [ascii ''X''] @ block_text [ascii ''7''] []) \<and>
   splitlines (block_text sample_block [ascii ''X'']) =
     [ascii ''1'', ascii ''t'', ascii ''X'', []] \<and>
   length (splitlines (block_text sample_block [ascii ''X''])) = 4 \<and>
   write_blocks [([ascii ''7''], 0)] [] 0 [] = (None, ascii ''7'' @ [10] @ [10] @ [10]) \<and>
   splitlines (ascii ''7'' @ [10] @ [10] @ [10]) = [ascii ''7'', [], []]"
proof -
  have nb: "\<forall>l\<in>set (block_lines sample_block [ascii ''X'']). \<forall>c\<in>set l. \<not> is_linebreak c"
    by (simp add: block_lines_def sample_block_def ascii_def is_linebreak_def)
  have bl: "block_lines sample_block [ascii ''X''] = [ascii ''1'', ascii ''t'', ascii ''X'']"
    by (simp add: block_lines_def sample_block_def)
  have len: "length [ascii ''X''] = length (drop 2 sample_block)"
    by (simp add: sample_block_def)
  have seven: "encodable (ascii ''7'')" "\<forall>c\<in>set (ascii ''7''). \<not> is_linebreak c"
    by (simp_all add: encodable_def is_surrogate_def is_linebreak_def ascii_def)
  note inst = reassembly_block_shape
    [where batch = "[sample_block, [ascii ''7'']]" and tss = "[[ascii ''X''], []]" and out = "[]"
       and ts = "[ascii ''X'']" and block = sample_block and l = "ascii ''7''"
       and translated_lines = "[]" and index = 0]
  from inst fits_sample nb len seven show ?thesis
    by (simp add: bl del: write_blocks.simps)
qed

section \<open>The parsing round trip\<close>

lemma splitlines_from_join:
  "\<forall>l\<in>set (l0 # ls). \<forall>c\<in>set l. \<not> is_linebreak c \<Longrightarrow>
   splitlines_from cur (join [10] (l0 # ls) @ rest) =
     butlast ((cur @ l0) # ls) @ splitlines_from (last ((cur @ l0) # ls)) rest"
proof (induction ls arbitrary: cur l0)
  case Nil
  then show ?case by (simp add: splitlines_from_run)
next
  case (Cons l1 ls)
  have "splitlines_from cur (join [10] (l0 # l1 # ls) @ rest) =
        splitlines_from (cur @ l0) (10 # (join [10] (l1 # ls) @ rest))"
    using Cons.prems by (simp add: splitlines_from_run)
  also have "\<dots> = (cur @ l0) # splitlines_from [] (join [10] (l1 # ls) @ rest)"
    by (rule splitlines_from_lf)
  also have "splitlines_from [] (join [10] (l1 # ls) @ rest) =
      butlast (([] @ l1) # ls) @ splitlines_from (last (([] @ l1) # ls)) rest"
    using Cons.prems by (intro Cons.IH) simp
  finally show ?case by simp
qed

lemma splitlines_from_block:
  assumes "b \<noteq> []" "\<forall>l\<in>set b. \<forall>c\<in>set l. \<not> is_linebreak c"
  shows "splitlines_from [] (join [10] b @ rest) = butlast b @ splitlines_from (last b) rest"
proof -
  from assms(1) obtain l0 ls where b: "b = l0 # ls" by (cases b) auto
  with assms(2) splitlines_from_join [of l0 ls "[]" rest] show ?thesis by simp
qed

lemma splitlines_from_trailer:
  "splitlines_from cur (replicate k 10) =
     (if k = 0 then (if cur = [] then [] else [cur]) else cur # replicate (k - 1) [])"
proof (induction k arbitrary: cur)
  case 0
  then show ?case by simp
next
  case (Suc k)
  have "splitlines_from [] (replicate k 10) = replicate k []"
    by (subst Suc.IH) (cases k; simp)
  then show ?case by (simp add: is_linebreak_lf)
qed

lemma strip_Nil: "strip [] = []"
  by (simp add: strip_def)

lemma parse_loop_block:
  "\<forall>l\<in>set b. strip l \<noteq> [] \<Longrightarrow>
   parse_loop (b @ rest) cur blocks = parse_loop rest (cur @ b) blocks"
  by (induction b arbitrary: cur) auto

lemma parse_loop_blank_lines:
  "parse_loop (replicate n []) cur blocks = (if cur \<noteq> [] then blocks @ [cur] else blocks)"
proof (induction n arbitrary: cur blocks)
  case 0
  then show ?case by simp
next
  case (Suc n)
  then show ?case by (simp add: strip_Nil)
qed

lemma well_formed_blockD:
  assumes "well_formed_block b"
  shows "b \<noteq> []" "2 \<le> length b" "\<forall>l\<in>set b. strip l \<noteq> []"
    "\<forall>l\<in>set b. \<forall>c\<in>set l. \<not> is_linebreak c" "last b \<noteq> []"
proof -
  from assms show ne: "b \<noteq> []" and "2 \<le> length b" by (auto simp: well_formed_block_def)
  from assms show st: "\<forall>l\<in>set b. strip l \<noteq> []" by (simp add: well_formed_block_def)
  from assms show "\<forall>l\<in>set b. \<forall>c\<in>set l. \<not> is_linebreak c"
    by (simp add: well_formed_block_def)
  from ne st have "strip (last b) \<noteq> []" by simp
  then show "last b \<noteq> []" by (auto simp: strip_Nil)
qed

lemma srt_text_Cons2:
  "srt_text (b0 # b1 # bs) = join [10] b0 @ [10, 10] @ srt_text (b1 # bs)"
  by (simp add: srt_text_def)

lemma parse_srt_text:
  "\<forall>b\<in>set (b0 # bs). well_formed_block b \<Longrightarrow>
   parse_loop (splitlines_from [] (srt_text (b0 # bs) @ replicate k 10)) [] acc = acc @ b0 # bs"
proof (induction bs arbitrary: b0 acc)
  case Nil
  then have wf: "well_formed_block b0" by simp
  note d = well_formed_blockD [OF wf]
  have "splitlines_from [] (srt_text [b0] @ replicate k 10) =
        butlast b0 @ splitlines_from (last b0) (replicate k 10)"
    using d(1) d(4) by (simp add: srt_text_def splitlines_from_block)
  also have "\<dots> = b0 @ replicate (k - 1) []"
    using d(1) d(5) by (simp add: splitlines_from_trailer)
  finally show ?case using d(1) d(3) by (simp add: parse_loop_block parse_loop_blank_lines)
next
  case (Cons b1 bs)
  then have wf: "well_formed_block b0" and rest: "\<forall>b\<in>set (b1 # bs). well_formed_block b"
    by simp_all
  note d = well_formed_blockD [OF wf]
  let ?R = "srt_text (b1 # bs) @ replicate k 10"
  have "splitlines_from [] (srt_text (b0 # b1 # bs) @ replicate k 10) =
        splitlines_from [] (join [10] b0 @ (10 # 10 # ?R))"
    by (simp add: srt_text_Cons2)
  also have "\<dots> = butlast b0 @ splitlines_from (last b0) (10 # 10 # ?R)"
    using d(1) d(4) by (rule splitlines_from_block)
  also have "\<dots> = b0 @ [] # splitlines_from [] ?R"
    using d(1) by (simp add: is_linebreak_lf)
  finally have "parse_loop (splitlines_from [] (srt_text (b0 # b1 # bs) @ replicate k 10)) [] acc
      = parse_loop ([] # splitlines_from [] ?R) b0 acc"
    using d(3) by (simp add: parse_loop_block)
  also have "\<dots> = parse_loop (splitlines_from [] ?R) [] (acc @ [b0])"
    using d(1) by (simp add: strip_Nil)
  also have "\<dots> = (acc @ [b0]) @ b1 # bs"
    using rest by (rule Cons.IH)
  finally show ?case by simp
qed

lemma block_lines_self: "2 \<le> length b \<Longrightarrow> block_lines b (drop 2 b) = b"
  by (cases b; cases "tl b") (auto simp: block_lines_def)

lemma fits_self: "2 \<le> length b \<Longrightarrow> \<forall>l\<in>set b. encodable l \<Longrightarrow> fits b (drop 2 b)"
  by (auto simp: fits_def block_lines_self)

lemma process_batch_identity:
  assumes "\<forall>b\<in>set batch. 2 \<le> length b \<and> (\<forall>l\<in>set b. encodable l)"
  shows "process_batch identity_translator batch out log =
     (None, out @ concat (map (\<lambda>b. concat (map (\<lambda>l. l @ [10]) b) @ [10]) batch), log)"
proof -
  from assms have "list_all2 fits batch (map (drop 2) batch)"
    by (simp add: list_all2_map2 list_all2_same fits_self)
  from write_blocks_batch [OF this, of "[]" out]
  have "write_blocks (zip batch (line_counts_of batch))
          (map JString (concat (map (drop 2) batch))) 0 out =
        (None, out @ concat (map2 block_text batch (map (drop 2) batch)))" by simp
  moreover have "map2 block_text batch (map (drop 2) batch) =
      map (\<lambda>b. concat (map (\<lambda>l. l @ [10]) b) @ [10]) batch"
    using assms by (induction batch) (simp_all add: block_text_def block_lines_self)
  ultimately show ?thesis
    by (simp add: process_batch_def identity_translator_def text_lines_of_def)
qed

lemma batches_loop_identity:
  "\<forall>b\<in>set blocks. 2 \<le> length b \<and> (\<forall>l\<in>set b. encodable l) \<Longrightarrow>
   batches_loop identity_translator blocks start out log =
     (None, out @ concat (map (\<lambda>b. concat (map (\<lambda>l. l @ [10]) b) @ [10]) (drop start blocks)),
      log)"
proof (induction identity_translator blocks start out log rule: batches_loop.induct)
  case (1 blocks start out log)
  let ?f = "\<lambda>b. concat (map (\<lambda>l. l @ [10]) b) @ [10]"
  show ?case
  proof (cases "length blocks \<le> start")
    case True
    then show ?thesis by (subst batches_loop.simps) simp
  next
    case False
    let ?batch = "take BATCH_SIZE (drop start blocks)"
    have sub: "\<forall>b\<in>set ?batch. 2 \<le> length b \<and> (\<forall>l\<in>set b. encodable l)"
      using "1.prems" by (meson in_set_dropD in_set_takeD)
    have pb: "process_batch identity_translator ?batch out log =
        (None, out @ concat (map ?f ?batch), log)"
      using sub by (rule process_batch_identity)
    have ih: "batches_loop identity_translator blocks (start + BATCH_SIZE)
          (out @ concat (map ?f ?batch)) log =
        (None, (out @ concat (map ?f ?batch))
                 @ concat (map ?f (drop (start + BATCH_SIZE) blocks)), log)"
      using False pb "1.prems" by (intro "1.hyps") simp_all
    have split: "concat (map ?f ?batch) @ concat (map ?f (drop (start + BATCH_SIZE) blocks)) =
        concat (map ?f (drop start blocks))"
    proof -
      have "?batch @ drop (start + BATCH_SIZE) blocks = drop start blocks"
        using append_take_drop_id [of BATCH_SIZE "drop start blocks"]
        by (simp add: add.commute)
      then have "concat (map ?f (?batch @ drop (start + BATCH_SIZE) blocks)) =
          concat (map ?f (drop start blocks))" by (rule arg_cong)
      then show ?thesis by simp
    qed
    show ?thesis
      using False pb ih split by (subst batches_loop.simps) simp
  qed
qed

lemma lines_join: "b \<noteq> [] \<Longrightarrow> concat (map (\<lambda>l. l @ [10]) b) = join [10] b @ [10]"
  by (induction "[10::nat]" b rule: join.induct) simp_all

lemma blocks_srt_text:
  "\<forall>b\<in>set (b0 # bs). b \<noteq> [] \<Longrightarrow>
   concat (map (\<lambda>b. concat (map (\<lambda>l. l @ [10]) b) @ [10]) (b0 # bs)) =
     srt_text (b0 # bs) @ [10, 10]"
proof (induction bs arbitrary: b0)
  case Nil
  then show ?case by (simp add: srt_text_def lines_join)
next
  case (Cons b1 bs)
  then have "concat (map (\<lambda>b. concat (map (\<lambda>l. l @ [10]) b) @ [10]) (b1 # bs)) =
     srt_text (b1 # bs) @ [10, 10]"
    by (intro Cons.IH) simp
  with Cons.prems show ?case
    by (simp add: srt_text_Cons2 lines_join)
qed

text \<open>
  C3, amended. For a text without surrogates (as every text \<open>read_text\<close> returns) made of
  well-formed blocks whose lines are ended by a line feed, separated by exactly one empty
  line (a line with no character), with any number \<open>k\<close> of line feeds at its end, the parser
  gives back the blocks, and \<open>translate_file\<close> run with the identity translation writes the
  same text ended by exactly one blank line: the input up to the blank lines at its end.
\<close>

theorem parse_reassemble_roundtrip:
  "blocks \<noteq> [] \<and> (\<forall>b\<in>set blocks. well_formed_block b \<and> (\<forall>l\<in>set b. encodable l)) \<and>
   fs p = Some (srt_text blocks @ replicate k 10) \<longrightarrow>
     parse_srt_blocks (srt_text blocks @ replicate k 10) = blocks \<and>
     translate_file_with identity_translator fs log p out_path =
       (None, fs(out_path \<mapsto> srt_text blocks @ [10, 10]), log)"
proof
  assume h: "blocks \<noteq> [] \<and>
   (\<forall>b\<in>set blocks. well_formed_block b \<and> (\<forall>l\<in>set b. encodable l)) \<and>
   fs p = Some (srt_text blocks @ replicate k 10)"
  then obtain b0 bs where bl: "blocks = b0 # bs" by (cases blocks) auto
  from h bl have wf: "\<forall>b\<in>set (b0 # bs). well_formed_block b" by simp
  have parse: "parse_srt_blocks (srt_text blocks @ replicate k 10) = blocks"
    using parse_srt_text [OF wf, of k "[]"] by (simp add: parse_srt_blocks_def splitlines_def bl)
  from wf h have two: "\<forall>b\<in>set blocks. 2 \<le> length b \<and> (\<forall>l\<in>set b. encodable l)"
    and ne: "\<forall>b\<in>set (b0 # bs). b \<noteq> []"
    using bl by (auto dest: well_formed_blockD)
  have "batches_loop identity_translator blocks 0 [] log =
      (None, srt_text blocks @ [10, 10], log)"
    using batches_loop_identity [OF two, of 0 "[]" log] blocks_srt_text [OF ne]
    by (simp add: bl)
  with h parse show "parse_srt_blocks (srt_text blocks @ replicate k 10) = blocks \<and>
     translate_file_with identity_translator fs log p out_path =
       (None, fs(out_path \<mapsto> srt_text blocks @ [10, 10]), log)"
    by (simp add: translate_file_with_def)
qed

lemma sample_blocks_well_formed:
  "\<forall>b\<in>set sample_blocks. well_formed_block b \<and> (\<forall>l\<in>set b. encodable l)"
  by (simp add: sample_blocks_def sample_block_def well_formed_block_def ascii_def strip_def
      is_space_def is_linebreak_def encodable_def is_surrogate_def)

lemma sample_blocks_text:
  "srt_text sample_blocks =
     ascii ''1'' @ [10] @ ascii ''t'' @ [10] @ ascii ''Hi'' @ [10, 10]
       @ ascii ''2'' @ [10] @ ascii ''u'' @ [10] @ ascii ''Yo''"
  by (simp add: srt_text_def sample_blocks_def sample_block_def)

lemma parse_spaced: "parse_srt_blocks spaced_text = sample_blocks"
  by (simp add: spaced_text_def sample_blocks_def sample_block_def parse_srt_blocks_def
      splitlines_def ascii_def is_linebreak_def strip_def is_space_def)

text \<open>
  C3, as stated, fails: a separator line that holds a space is blank for the parser, so the
  text is made of the two well-formed blocks separated by one blank line; the identity
  translation writes an empty line in its place, and the written text differs from the input
  at position 7, before any blank line at the end.
\<close>

theorem blank_separator_not_reproduced:
  "parse_srt_blocks spaced_text = sample_blocks \<and>
   translate_file_with identity_translator [sample_path \<mapsto> spaced_text] [] sample_path
       (out_path_of sample_path) =
     (None,
      [sample_path \<mapsto> spaced_text,
       out_path_of sample_path \<mapsto> srt_text sample_blocks @ [10, 10]],
      []) \<and>
   spaced_text ! 7 = 32 \<and> (srt_text sample_blocks @ [10, 10]) ! 7 = 10"
proof -
  have two: "\<forall>b\<in>set sample_blocks. 2 \<le> length b \<and> (\<forall>l\<in>set b. encodable l)"
    using sample_blocks_well_formed by (auto dest: well_formed_blockD)
  have ne: "\<forall>b\<in>set (sample_block # [[ascii ''2'', ascii ''u'', ascii ''Yo'']]). b \<noteq> []"
    by (simp add: sample_block_def)
  have "batches_loop identity_translator sample_blocks 0 [] [] =
      (None, srt_text sample_blocks @ [10, 10], [])"
    using batches_loop_identity [OF two, of 0 "[]" "[]"] blocks_srt_text [OF ne]
    by (simp add: sample_blocks_def)
  then have run: "translate_file_with identity_translator [sample_path \<mapsto> spaced_text] []
       sample_path (out_path_of sample_path) =
     (None,
      [sample_path \<mapsto> spaced_text,
       out_path_of sample_path \<mapsto> srt_text sample_blocks @ [10, 10]],
      [])"
    by (simp add: translate_file_with_def parse_spaced)
  have "spaced_text ! 7 = 32"
    by (simp add: spaced_text_def ascii_def)
  moreover have "(srt_text sample_blocks @ [10, 10]) ! 7 = 10"
    by (simp add: sample_blocks_text ascii_def)
  ultimately show ?thesis using run parse_spaced by blast
qed

text \<open>The amended C3 at a file of two blocks ending in one line feed.\<close>

theorem parse_reassemble_roundtrip_witness:
  "srt_text sample_blocks =
     ascii ''1'' @ [10] @ ascii ''t'' @ [10] @ ascii ''Hi'' @ [10, 10]
       @ ascii ''2'' @ [10] @ ascii ''u'' @ [10] @ ascii ''Yo'' \<and>
   parse_srt_blocks (srt_text sample_blocks @ replicate 1 10) = sample_blocks \<and>
   translate_file_with identity_translator [sample_path \<mapsto> srt_text sample_blocks @ replicate 1 10]
       [] sample_path (out_path_of sample_path) =
     (None,
      [sample_path \<mapsto> srt_text sample_blocks @ replicate 1 10,
       out_path_of sample_path \<mapsto> srt_text sample_blocks @ [10, 10]],
      [])"
proof -
  have ne: "sample_blocks \<noteq> []"
    by (simp add: sample_blocks_def)
  note inst = parse_reassemble_roundtrip
    [where blocks = sample_blocks and k = 1
       and fs = "[sample_path \<mapsto> srt_text sample_blocks @ replicate 1 10]"
       and p = sample_path and log = "[]" and out_path = "out_path_of sample_path"]
  from inst ne sample_blocks_well_formed sample_blocks_text show ?thesis
    by simp
qed

section \<open>Properties of the run\<close>

lemma process_file_error:
  assumes "\<not> is_translation p" "out_path_of p \<notin> dom (files st)"
    "translate_file codex str_other (files st) (calls st) p (out_path_of p) = (Some exc, fs', log')"
  shows "process_file codex str_other p st =
     st\<lparr>found := found st + 1, errors := errors st @ [(p, exc)],
        files := (if out_path_of p \<in> dom fs' then fs'(out_path_of p := None) else fs'),
        calls := log'\<rparr>"
  using assms by (simp add: process_file_def Let_def)

lemma errors_process_file:
  "errors (process_file codex str_other p st) = [] \<longleftrightarrow>
     errors st = [] \<and> \<not> file_errors codex str_other p st"
proof (cases "is_translation p \<or> out_path_of p \<in> dom (files st)")
  case True
  then show ?thesis by (auto simp: process_file_def file_errors_def Let_def)
next
  case False
  obtain r fs' log' where
    tf: "translate_file codex str_other (files st) (calls st) p (out_path_of p) = (r, fs', log')"
    by (cases "translate_file codex str_other (files st) (calls st) p (out_path_of p)")
  with False show ?thesis
    by (cases r) (auto simp: process_file_def file_errors_def Let_def)
qed

lemma errors_main_loop:
  "errors (main_loop codex str_other ps st) = [] \<longleftrightarrow>
     errors st = [] \<and> \<not> any_errored codex str_other ps st"
  by (induction ps arbitrary: st) (auto simp: errors_process_file)

text \<open>
  C6. When \<open>translate_file\<close> raises for a discovered file, the loop body records the error
  for that file, leaves no output file at its output path, leaves every other path as
  \<open>translate_file\<close> left it, does not count the file as translated, and the loop goes on
  with the remaining files. The exit status of \<open>main\<close> is non-zero exactly when some file
  errored.
\<close>

theorem file_error_is_contained:
  "(\<not> is_translation p \<and> out_path_of p \<notin> dom (files st) \<and>
    translate_file codex str_other (files st) (calls st) p (out_path_of p) = (Some exc, fs', log')
    \<longrightarrow>
      errors (process_file codex str_other p st) = errors st @ [(p, exc)] \<and>
      out_path_of p \<notin> dom (files (process_file codex str_other p st)) \<and>
      (\<forall>q. q \<noteq> out_path_of p \<longrightarrow> files (process_file codex str_other p st) q = fs' q) \<and>
      translated (process_file codex str_other p st) = translated st \<and>
      main_loop codex str_other (p # ps) st =
        main_loop codex str_other ps (process_file codex str_other p st)) \<and>
   (fst (main codex str_other srt_files fs) \<noteq> 0 \<longleftrightarrow>
      any_errored codex str_other srt_files (initial_state fs))"
proof (rule conjI)
  show "\<not> is_translation p \<and> out_path_of p \<notin> dom (files st) \<and>
    translate_file codex str_other (files st) (calls st) p (out_path_of p) = (Some exc, fs', log')
    \<longrightarrow>
      errors (process_file codex str_other p st) = errors st @ [(p, exc)] \<and>
      out_path_of p \<notin> dom (files (process_file codex str_other p st)) \<and>
      (\<forall>q. q \<noteq> out_path_of p \<longrightarrow> files (process_file codex str_other p st) q = fs' q) \<and>
      translated (process_file codex str_other p st) = translated st \<and>
      main_loop codex str_other (p # ps) st =
        main_loop codex str_other ps (process_file codex str_other p st)"
  proof
    assume h: "\<not> is_translation p \<and> out_path_of p \<notin> dom (files st) \<and>
      translate_file codex str_other (files st) (calls st) p (out_path_of p) = (Some exc, fs', log')"
    then have pf: "process_file codex str_other p st =
       st\<lparr>found := found st + 1, errors := errors st @ [(p, exc)],
          files := (if out_path_of p \<in> dom fs' then fs'(out_path_of p := None) else fs'),
          calls := log'\<rparr>"
      by (intro process_file_error) simp_all
    show "errors (process_file codex str_other p st) = errors st @ [(p, exc)] \<and>
      out_path_of p \<notin> dom (files (process_file codex str_other p st)) \<and>
      (\<forall>q. q \<noteq> out_path_of p \<longrightarrow> files (process_file codex str_other p st) q = fs' q) \<and>
      translated (process_file codex str_other p st) = translated st \<and>
      main_loop codex str_other (p # ps) st =
        main_loop codex str_other ps (process_file codex str_other p st)"
      by (simp add: pf)
  qed
next
  have "errors (snd (main codex str_other srt_files fs)) = [] \<longleftrightarrow>
      \<not> any_errored codex str_other srt_files (initial_state fs)"
    by (simp add: main_def Let_def errors_main_loop initial_state_def)
  then show "fst (main codex str_other srt_files fs) \<noteq> 0 \<longleftrightarrow>
      any_errored codex str_other srt_files (initial_state fs)"
    by (auto simp: main_def Let_def)
qed

lemma translate_lines_failing:
  "translate_lines failing_codex str_other [ascii ''Hi''] log =
     (Inl OracleFailure, log @ [structured_prompt [ascii ''Hi'']])"
  by (simp add: translate_lines_def hi_nonempty structured_loop_unfold failing_codex_def)

lemma batches_loop_failing:
  "batches_loop (translate_lines failing_codex str_other) [sample_block] 0 [] [] =
     (Some OracleFailure, [], [structured_prompt [ascii ''Hi'']])"
  by (subst batches_loop.simps)
     (simp add: BATCH_SIZE_def process_batch_def text_lines_sample translate_lines_failing)

lemma sample_not_translation: "\<not> is_translation sample_path"
  by (simp add: is_translation_def endswith_def sample_path_def ascii_def)

lemma sample_out_differs: "out_path_of sample_path \<noteq> sample_path"
  by (simp add: out_path_of_def sample_path_def ascii_def)

lemma sample_out_fresh: "out_path_of sample_path \<notin> dom sample_fs"
  by (simp add: sample_fs_def sample_out_differs)

lemma translate_file_failing:
  "translate_file failing_codex str_other sample_fs [] sample_path (out_path_of sample_path) =
     (Some OracleFailure, sample_fs(out_path_of sample_path \<mapsto> []),
      [structured_prompt [ascii ''Hi'']])"
  by (simp add: translate_file_def translate_file_with_def sample_fs_def parse_sample
      batches_loop_failing)

text \<open>C6 at a one-file run with the oracle whose process always fails.\<close>

theorem file_error_is_contained_witness:
  "errors (process_file failing_codex no_str_other sample_path (initial_state sample_fs)) =
     [(sample_path, OracleFailure)] \<and>
   out_path_of sample_path \<notin>
     dom (files (process_file failing_codex no_str_other sample_path (initial_state sample_fs))) \<and>
   files (process_file failing_codex no_str_other sample_path (initial_state sample_fs))
     sample_path = Some sample_text \<and>
   fst (main failing_codex no_str_other [sample_path] sample_fs) = 1"
proof -
  have st: "files (initial_state sample_fs) = sample_fs" "calls (initial_state sample_fs) = []"
    "errors (initial_state sample_fs) = []"
    by (simp_all add: initial_state_def)
  have ne: "sample_path \<noteq> out_path_of sample_path"
    using sample_out_differs by simp
  have err: "any_errored failing_codex no_str_other [sample_path] (initial_state sample_fs)"
    by (simp add: file_errors_def sample_not_translation st sample_out_fresh
        translate_file_failing)
  have ex: "fst (main failing_codex no_str_other [sample_path] sample_fs) = 0 \<or>
      fst (main failing_codex no_str_other [sample_path] sample_fs) = 1"
    by (simp add: main_def Let_def)
  note inst = file_error_is_contained
    [where p = sample_path and st = "initial_state sample_fs" and codex = failing_codex
       and str_other = no_str_other and exc = OracleFailure
       and fs' = "sample_fs(out_path_of sample_path \<mapsto> [])"
       and log' = "[structured_prompt [ascii ''Hi'']]" and ps = "[]"
       and srt_files = "[sample_path]" and fs = sample_fs]
  have fs: "sample_fs sample_path = Some sample_text"
    by (simp add: sample_fs_def)
  from inst have body:
    "errors (process_file failing_codex no_str_other sample_path (initial_state sample_fs)) =
       [(sample_path, OracleFailure)] \<and>
     out_path_of sample_path \<notin>
       dom (files (process_file failing_codex no_str_other sample_path (initial_state sample_fs))) \<and>
     (\<forall>q. q \<noteq> out_path_of sample_path \<longrightarrow>
        files (process_file failing_codex no_str_other sample_path (initial_state sample_fs)) q =
          (sample_fs(out_path_of sample_path \<mapsto> [])) q)"
    and exit: "fst (main failing_codex no_str_other [sample_path] sample_fs) \<noteq> 0"
    using err by (simp_all add: st sample_not_translation sample_out_fresh translate_file_failing)
  from body ne fs
  have "files (process_file failing_codex no_str_other sample_path (initial_state sample_fs))
          sample_path = Some sample_text"
    by (metis fun_upd_other)
  with body exit ex show ?thesis by simp
qed

end
